theory Spec2Isabelle
  imports Complex_Main
begin

section \<open>Values of the spatial algebra\<close>

text \<open>
  The program computes on JAX arrays of floating-point numbers. The embedding idealises
  every scalar as a real number: \<open>+\<close>, \<open>*\<close> and \<open>/\<close> are exact, and a division
  by zero has HOL's value \<open>0\<close>. An array of shape \<open>(n, ...)\<close> is a list of length \<open>n\<close>;
  a batched dataclass (a struct of arrays sharing their leading axis) is a list of structs.
\<close>

datatype vec3 = Vec3 (vx: real) (vy: real) (vz: real)

instantiation vec3 :: ab_group_add
begin

definition zero_vec3 :: vec3 where
  "zero_vec3 = Vec3 0 0 0"

definition plus_vec3 :: "vec3 \<Rightarrow> vec3 \<Rightarrow> vec3" where
  "plus_vec3 a b = Vec3 (vx a + vx b) (vy a + vy b) (vz a + vz b)"

definition uminus_vec3 :: "vec3 \<Rightarrow> vec3" where
  "uminus_vec3 a = Vec3 (- vx a) (- vy a) (- vz a)"

definition minus_vec3 :: "vec3 \<Rightarrow> vec3 \<Rightarrow> vec3" where
  "minus_vec3 a b = Vec3 (vx a - vx b) (vy a - vy b) (vz a - vz b)"

instance
  by standard
    (simp_all add: zero_vec3_def plus_vec3_def uminus_vec3_def minus_vec3_def vec3.expand)

end

definition vscale :: "real \<Rightarrow> vec3 \<Rightarrow> vec3" where
  \<comment> \<open>\<open>jp.multiply(s, v)\<close> and \<open>v * s\<close> for a scalar \<open>s\<close> and a 3-vector \<open>v\<close>.\<close>
  "vscale s v = Vec3 (s * vx v) (s * vy v) (s * vz v)"

definition vdiv :: "vec3 \<Rightarrow> real \<Rightarrow> vec3" where
  \<comment> \<open>\<open>v / s\<close>.\<close>
  "vdiv v s = Vec3 (vx v / s) (vy v / s) (vz v / s)"

definition vcross :: "vec3 \<Rightarrow> vec3 \<Rightarrow> vec3" where
  \<comment> \<open>\<open>jp.cross\<close> on 3-vectors.\<close>
  "vcross a b = Vec3 (vy a * vz b - vz a * vy b)
                     (vz a * vx b - vx a * vz b)
                     (vx a * vy b - vy a * vx b)"

definition vdot :: "vec3 \<Rightarrow> vec3 \<Rightarrow> real" where
  \<comment> \<open>\<open>jp.dot\<close> on 3-vectors.\<close>
  "vdot a b = vx a * vx b + vy a * vy b + vz a * vz b"

datatype quat = Quat (qw: real) (qx: real) (qy: real) (qz: real)

record Transform =
  pos :: vec3
  rot :: quat

datatype Motion = Motion (ang: vec3) (vel: vec3)

instantiation Motion :: ab_group_add
begin

definition zero_Motion :: Motion where
  "zero_Motion = Motion 0 0"

definition plus_Motion :: "Motion \<Rightarrow> Motion \<Rightarrow> Motion" where
  "plus_Motion a b = Motion (ang a + ang b) (vel a + vel b)"

definition uminus_Motion :: "Motion \<Rightarrow> Motion" where
  "uminus_Motion a = Motion (- ang a) (- vel a)"

definition minus_Motion :: "Motion \<Rightarrow> Motion \<Rightarrow> Motion" where
  "minus_Motion a b = Motion (ang a - ang b) (vel a - vel b)"

instance
  by standard
    (simp_all add: zero_Motion_def plus_Motion_def uminus_Motion_def minus_Motion_def
      Motion.expand)

end

datatype Force = Force (f_ang: vec3) (f_vel: vec3)

instantiation Force :: ab_group_add
begin

definition zero_Force :: Force where
  "zero_Force = Force 0 0"

definition plus_Force :: "Force \<Rightarrow> Force \<Rightarrow> Force" where
  "plus_Force a b = Force (f_ang a + f_ang b) (f_vel a + f_vel b)"

definition uminus_Force :: "Force \<Rightarrow> Force" where
  "uminus_Force a = Force (- f_ang a) (- f_vel a)"

definition minus_Force :: "Force \<Rightarrow> Force \<Rightarrow> Force" where
  "minus_Force a b = Force (f_ang a - f_ang b) (f_vel a - f_vel b)"

instance
  by standard
    (simp_all add: zero_Force_def plus_Force_def uminus_Force_def minus_Force_def
      Force.expand)

end


type_synonym mat3 = "vec3 \<times> vec3 \<times> vec3"

record Inertia =
  transform :: Transform
  inertia_i :: mat3
  mass :: real

section \<open>The mechanism\<close>

record Link =
  link_transform :: Transform
  link_joint :: Transform
  link_inertia :: Inertia

record DoF =
  motion :: Motion
  stiffness :: real
  damping :: real

text \<open>
  \<open>sys.link\<close> and \<open>sys.dof\<close> are batched dataclasses (one row per link, one row per
  dof); \<open>sys.link_types\<close> is a string with one character per link (\<open>f\<close> for a free
  joint, a digit for a joint of that many stacked axes), \<open>sys.link_parents\<close> holds the
  parent index of every link, \<open>-1\<close> for the root.
\<close>

record System =
  link :: "Link list"
  dof :: "DoF list"
  link_types :: string
  link_parents :: "int list"
  gravity :: vec3

section \<open>The library the source file calls\<close>

text \<open>
  \<open>dynamics.py\<close> imports \<open>brax.v2.math\<close>, \<open>brax.v2.base\<close> and \<open>brax.v2.scan\<close>,
  none of which is part of the sources at hand. The operations whose meaning the
  specification does not fix are parameters of the embedding: every theorem below holds for
  every value of them.
\<close>

record brax_lib =
  math_rotate :: "vec3 \<Rightarrow> quat \<Rightarrow> vec3"
  math_quat_rot_axis :: "vec3 \<Rightarrow> real \<Rightarrow> quat"
  math_normalize :: "quat \<Rightarrow> quat"
  transform_do :: "Transform \<Rightarrow> Transform \<Rightarrow> Transform"
  transform_do_motion :: "Transform \<Rightarrow> Motion \<Rightarrow> Motion"
  transform_do_inertia :: "Transform \<Rightarrow> Inertia \<Rightarrow> Inertia"
  transform_inv :: "Transform \<Rightarrow> Transform"
  inertia_mul :: "Inertia \<Rightarrow> Motion \<Rightarrow> Force"
  motion_cross_force :: "Motion \<Rightarrow> Force \<Rightarrow> Force"
  q_width :: "char \<Rightarrow> nat"
  qd_width :: "char \<Rightarrow> nat"

text \<open>
  \<open>transform_do lib t o\<close> is \<open>t.do(o)\<close> for a \<open>Transform\<close> \<open>o\<close>, and likewise for a
  \<open>Motion\<close> and an \<open>Inertia\<close>; \<open>motion_cross_force lib m f\<close> is \<open>m.cross(f)\<close> for a
  \<open>Force\<close> \<open>f\<close>. \<open>q_width\<close> and \<open>qd_width\<close> are the tables of the scan module: how many
  entries of \<open>q\<close>, and how many dofs, a link of a given type owns.
\<close>

definition slice :: "'a list \<Rightarrow> nat \<Rightarrow> nat \<Rightarrow> 'a list" where
  \<comment> \<open>\<open>xs[s : s + w]\<close>\<close>
  "slice xs s w = take w (drop s xs)"

definition num_links :: "System \<Rightarrow> nat" where
  "num_links sys = length (link_types sys)"

definition dof_start :: "brax_lib \<Rightarrow> System \<Rightarrow> nat \<Rightarrow> nat" where
  \<comment> \<open>The index of the first dof of link \<open>i\<close>: the dofs are laid out link after link.\<close>
  "dof_start lib sys i = sum_list (map (qd_width lib) (take i (link_types sys)))"

definition q_start :: "brax_lib \<Rightarrow> System \<Rightarrow> nat \<Rightarrow> nat" where
  \<comment> \<open>The index of the first entry of \<open>q\<close> of link \<open>i\<close>.\<close>
  "q_start lib sys i = sum_list (map (q_width lib) (take i (link_types sys)))"

definition qd_size :: "brax_lib \<Rightarrow> System \<Rightarrow> nat" where
  "qd_size lib sys = sum_list (map (qd_width lib) (link_types sys))"

definition q_size :: "brax_lib \<Rightarrow> System \<Rightarrow> nat" where
  "q_size lib sys = sum_list (map (q_width lib) (link_types sys))"

definition dof_link :: "brax_lib \<Rightarrow> System \<Rightarrow> nat list" where
  \<comment> \<open>Modelled from the spec: \<open>sys.dof_link()\<close>, the dof-to-link map (which link each
      generalized coordinate drives); \<open>brax.v2.base\<close> is not among the sources.\<close>
  "dof_link lib sys =
     concat (map (\<lambda>i. replicate (qd_width lib (link_types sys ! i)) i) [0..<num_links sys])"

subsection \<open>The scan by joint type\<close>

definition links_of_type :: "System \<Rightarrow> char \<Rightarrow> nat list" where
  "links_of_type sys typ = filter (\<lambda>i. link_types sys ! i = typ) [0..<num_links sys]"

definition type_rank :: "System \<Rightarrow> nat \<Rightarrow> nat" where
  \<comment> \<open>The position of link \<open>i\<close> among the links of its own type.\<close>
  "type_rank sys i =
     length (filter (\<lambda>j. link_types sys ! j = link_types sys ! i) [0..<i])"

definition take_l :: "System \<Rightarrow> char \<Rightarrow> 'a list \<Rightarrow> 'a list" where
  \<comment> \<open>The rows of a per-link array (input type \<open>l\<close>) that belong to the links of a type.\<close>
  "take_l sys typ xs = concat (map (\<lambda>i. slice xs i 1) (links_of_type sys typ))"

definition take_d :: "brax_lib \<Rightarrow> System \<Rightarrow> char \<Rightarrow> 'a list \<Rightarrow> 'a list" where
  \<comment> \<open>The rows of a per-dof array (input type \<open>d\<close>) that belong to the links of a type.\<close>
  "take_d lib sys typ xs =
     concat (map (\<lambda>i. slice xs (dof_start lib sys i) (qd_width lib typ)) (links_of_type sys typ))"

definition take_q :: "brax_lib \<Rightarrow> System \<Rightarrow> char \<Rightarrow> 'a list \<Rightarrow> 'a list" where
  \<comment> \<open>The entries of a \<open>q\<close>-shaped array (input type \<open>q\<close>) that belong to the links of a
      type.\<close>
  "take_q lib sys typ xs =
     concat (map (\<lambda>i. slice xs (q_start lib sys i) (q_width lib typ)) (links_of_type sys typ))"

definition scan_link_types :: "brax_lib \<Rightarrow> System \<Rightarrow> (char \<Rightarrow> 'a list) \<Rightarrow> 'a list" where
  \<comment> \<open>Modelled from the spec: \<open>scan.link_types\<close> with output type \<open>d\<close>, the type-grouped map:
      it partitions the links and dofs by joint-type tag, applies the function once per
      group and reassembles the outputs in the original dof order. \<open>f typ\<close> is the call of
      the scanned function on the group of \<open>typ\<close> (its inputs taken with \<open>take_l\<close>,
      \<open>take_d\<close>, \<open>take_q\<close>); \<open>brax.v2.scan\<close> is not among the sources.\<close>
  "scan_link_types lib sys f =
     concat (map (\<lambda>i. let typ = link_types sys ! i
                       in slice (f typ) (type_rank sys i * qd_width lib typ) (qd_width lib typ))
                 [0..<num_links sys])"

definition scan_link_types_opt ::
  "brax_lib \<Rightarrow> System \<Rightarrow> (char \<Rightarrow> 'a list option) \<Rightarrow> 'a list option" where
  \<comment> \<open>The same scan for a function that can raise: the exception of any group ends the
      scan.\<close>
  "scan_link_types_opt lib sys f =
     (if list_ex (\<lambda>typ. f typ = None) (link_types sys) then None
      else Some (scan_link_types lib sys (\<lambda>typ. the (f typ))))"

section \<open>Passive forces\<close>

definition stiffness_fn :: "char \<Rightarrow> real list \<Rightarrow> DoF list \<Rightarrow> real list" where
  \<comment> \<open>\<open>typ in 'fb'\<close> tests a one-character string against the characters \<open>f\<close> and \<open>b\<close>.\<close>
  "stiffness_fn typ q dofs =
     (if typ \<in> set ''fb'' then map (\<lambda>_. 0) dofs
      else map2 (\<lambda>qk d. - qk * stiffness d) q dofs)"

definition passive_forces :: "brax_lib \<Rightarrow> System \<Rightarrow> real list \<Rightarrow> real list \<Rightarrow> real list" where
  \<comment> \<open>\<open>_passive\<close> of the source.\<close>
  "passive_forces lib sys q qd =
     (let frc = scan_link_types lib sys
                  (\<lambda>typ. stiffness_fn typ (take_q lib sys typ q) (take_d lib sys typ (dof sys)))
      in map2 (\<lambda>f y. f - y) frc (map2 (\<lambda>d v. damping d * v) (dof sys) qd))"


section \<open>The scan over the tree\<close>

definition take_idx :: "'a list \<Rightarrow> int list \<Rightarrow> 'a list" where
  \<comment> \<open>Modelled from the spec: \<open>a.take(idx)\<close>, the rows of \<open>a\<close> at the given indices. An
      index counts from the end when it is negative, so that \<open>-1\<close> (the parent index of the
      root) selects the last row; \<open>brax.v2.base\<close> is not among the sources.\<close>
  "take_idx xs idx = (if xs = [] then [] else map (\<lambda>i. xs ! nat (i mod int (length xs))) idx)"

function depth_fn :: "int list \<Rightarrow> nat \<Rightarrow> nat" where
  "depth_fn ps i =
     (if 0 \<le> ps ! i \<and> nat (ps ! i) < i then Suc (depth_fn ps (nat (ps ! i))) else 0)"
  by pat_completeness auto
termination
  by (relation "measure (\<lambda>(ps, i). i)") auto

definition depth :: "System \<Rightarrow> nat \<Rightarrow> nat" where
  \<comment> \<open>Modelled from the spec: the depth of a link in the tree (the root has depth 0, a child
      one more than its parent), for link arrays in which a parent precedes its children.\<close>
  "depth sys i = depth_fn (link_parents sys) i"

definition level :: "System \<Rightarrow> nat \<Rightarrow> nat list" where
  \<comment> \<open>The links of one depth, in link order: one stage of the scan.\<close>
  "level sys k = filter (\<lambda>i. depth sys i = k) [0..<num_links sys]"

definition level_rank :: "System \<Rightarrow> nat \<Rightarrow> nat" where
  \<comment> \<open>The position of link \<open>i\<close> among the links of its own depth.\<close>
  "level_rank sys i = length (filter (\<lambda>j. depth sys j = depth sys i) [0..<i])"

definition max_depth :: "System \<Rightarrow> nat" where
  "max_depth sys = foldr max (map (depth sys) [0..<num_links sys]) 0"

definition dof_link_depth :: "brax_lib \<Rightarrow> System \<Rightarrow> nat list" where
  \<comment> \<open>Modelled from the spec: \<open>sys.dof_link(depth=True)\<close>, the dof-to-link map usable for
      tree traversal with depth information: for every dof, the position of its link within
      the stage of the scan that handles the link.\<close>
  "dof_link_depth lib sys =
     concat (map (\<lambda>i. replicate (qd_width lib (link_types sys ! i)) (level_rank sys i))
               [0..<num_links sys])"

definition take_level_l :: "System \<Rightarrow> nat \<Rightarrow> 'a list \<Rightarrow> 'a list" where
  "take_level_l sys k xs = concat (map (\<lambda>i. slice xs i 1) (level sys k))"

definition take_level_d :: "brax_lib \<Rightarrow> System \<Rightarrow> nat \<Rightarrow> 'a list \<Rightarrow> 'a list" where
  "take_level_d lib sys k xs =
     concat (map (\<lambda>i. slice xs (dof_start lib sys i) (qd_width lib (link_types sys ! i)))
               (level sys k))"

fun scan_tree_stage :: "System \<Rightarrow> ('y list option \<Rightarrow> nat \<Rightarrow> 'y list) \<Rightarrow> nat \<Rightarrow> 'y list" where
  "scan_tree_stage sys f 0 = f None 0"
| "scan_tree_stage sys f (Suc k) =
     (let y = scan_tree_stage sys f k
      in f (Some (take_idx y
                    (map (\<lambda>i. int (level_rank sys (nat (link_parents sys ! i))))
                       (level sys (Suc k)))))
           (Suc k))"

definition scan_tree :: "System \<Rightarrow> ('y list option \<Rightarrow> nat \<Rightarrow> 'y list) \<Rightarrow> 'y list" where
  \<comment> \<open>Modelled from the spec: \<open>scan.tree\<close>, the depth-ordered accumulation in forward mode.
      The links are visited parents before children, one depth after the other; \<open>f y k\<close> is
      the call of the scanned function on the links of depth \<open>k\<close> (its inputs taken with
      \<open>take_level_l\<close> and \<open>take_level_d\<close>), where \<open>y\<close> holds, for each of these links, the
      value of its parent, and is \<open>None\<close> at the root. The outputs are put back in link
      order.\<close>
  "scan_tree sys f =
     concat (map (\<lambda>i. slice (scan_tree_stage sys f (depth sys i)) (level_rank sys i) 1)
               [0..<num_links sys])"

fun scan_tree_rev_stage ::
  "System \<Rightarrow> ('y::monoid_add list option \<Rightarrow> nat \<Rightarrow> 'y list) \<Rightarrow> nat \<Rightarrow> 'y list" where
  "scan_tree_rev_stage sys f 0 = f None (max_depth sys)"
| "scan_tree_rev_stage sys f (Suc n) =
     (let y = scan_tree_rev_stage sys f n; k = max_depth sys - Suc n
      in f (Some (map (\<lambda>i. sum_list (take_idx y
                               (map (\<lambda>c. int (level_rank sys c))
                                  (filter (\<lambda>c. link_parents sys ! c = int i)
                                     (level sys (Suc k))))))
                    (level sys k)))
           k)"

definition scan_tree_rev ::
  "System \<Rightarrow> ('y::monoid_add list option \<Rightarrow> nat \<Rightarrow> 'y list) \<Rightarrow> 'y list" where
  \<comment> \<open>Modelled from the spec: \<open>scan.tree\<close> with \<open>reverse=True\<close>, the accumulation in
      backward mode. The links are visited children before parents, the deepest first;
      \<open>f y k\<close> is the call of the scanned function on the links of depth \<open>k\<close>, where \<open>y\<close>
      holds, for each of these links, the sum of the values of its children, and is \<open>None\<close>
      at the deepest links.\<close>
  "scan_tree_rev sys f =
     concat (map (\<lambda>i. slice (scan_tree_rev_stage sys f (max_depth sys - depth sys i))
                        (level_rank sys i) 1)
               [0..<num_links sys])"

section \<open>Operations on motions\<close>

definition motion_scale :: "Motion \<Rightarrow> real \<Rightarrow> Motion" where
  \<comment> \<open>Modelled from the spec: scalar multiplication of a motion, \<open>m * s\<close>.\<close>
  "motion_scale m s = Motion (vscale s (ang m)) (vscale s (vel m))"

definition motion_cross :: "Motion \<Rightarrow> Motion \<Rightarrow> Motion" where
  \<comment> \<open>Modelled from the spec: \<open>a.cross(b)\<close> for two motions, the spatial cross product
      \<open>(\<omega>\<^sub>a \<times> \<omega>\<^sub>b, \<omega>\<^sub>a \<times> v\<^sub>b + v\<^sub>a \<times> \<omega>\<^sub>b)\<close>.\<close>
  "motion_cross a b =
     Motion (vcross (ang a) (ang b)) (vcross (ang a) (vel b) + vcross (vel a) (ang b))"

definition motion_dot :: "Motion \<Rightarrow> Force \<Rightarrow> real" where
  \<comment> \<open>Modelled from the spec: \<open>m.dot(f)\<close>, the dot product of a motion with a force.\<close>
  "motion_dot m f = vdot (vel m) (f_vel f) + vdot (ang m) (f_ang f)"

fun index_sum :: "'a::plus list \<Rightarrow> nat list \<Rightarrow> 'a list \<Rightarrow> 'a list" where
  \<comment> \<open>Modelled from the spec: \<open>base.index_sum(idx, x)\<close>, the scatter-add that accumulates
      every contribution \<open>x[j]\<close> into the slot \<open>idx[j]\<close> of the buffer; several
      contributions may share a slot.\<close>
  "index_sum base (i # idx) (v # vs) = index_sum (base[i := base ! i + v]) idx vs"
| "index_sum base _ _ = base"

definition Transform_zero :: Transform where
  \<comment> \<open>Modelled from the spec: \<open>Transform.zero\<close>, the zero (identity) transform: position
      zero, rotation the identity quaternion.\<close>
  "Transform_zero = \<lparr>pos = 0, rot = Quat 1 0 0 0\<rparr>"

definition Transform_create_pos :: "vec3 \<Rightarrow> Transform" where
  \<comment> \<open>Modelled from the spec: \<open>Transform.create(pos=p)\<close>, a pure translation; the
      rotation is the identity.\<close>
  "Transform_create_pos p = \<lparr>pos = p, rot = Quat 1 0 0 0\<rparr>"

definition Motion_create_vel :: "vec3 \<Rightarrow> Motion" where
  \<comment> \<open>Modelled from the spec: \<open>Motion.create(vel=v)\<close>, a motion with the linear component
      only; the angular component is zero.\<close>
  "Motion_create_vel v = Motion 0 v"


section \<open>The transform into the centre-of-mass frame\<close>

definition int_typ :: "char \<Rightarrow> nat option" where
  \<comment> \<open>\<open>int(typ)\<close> for a one-character string: a decimal digit, or a \<open>ValueError\<close>.\<close>
  "int_typ c = (if c \<in> set ''0123456789'' then Some (of_char c - 48) else None)"

definition reshape_rows :: "'a list \<Rightarrow> nat \<Rightarrow> nat \<Rightarrow> 'a list list" where
  \<comment> \<open>\<open>a.reshape((rows, cols, -1))\<close> for an array of \<open>rows * cols\<close> rows.\<close>
  "reshape_rows xs rows cols = map (\<lambda>l. slice xs (l * cols) cols) [0..<rows]"

definition take_axis1 :: "'a list list \<Rightarrow> nat \<Rightarrow> 'a list" where
  \<comment> \<open>\<open>stack.take(i, axis=1)\<close>\<close>
  "take_axis1 stack i = map (\<lambda>row. row ! i) stack"

definition column_stack :: "'a list list \<Rightarrow> nat \<Rightarrow> 'a list" where
  \<comment> \<open>\<open>jax.tree_map(lambda *x: jp.column_stack(x), *cols).reshape((-1, 3))\<close> for columns
      of \<open>rows\<close> rows each: row \<open>l\<close> of every column, link after link.\<close>
  "column_stack cols rows = concat (map (\<lambda>l. map (\<lambda>c. c ! l) cols) [0..<rows])"

fun cdof_loop ::
  "brax_lib \<Rightarrow> Transform list list \<Rightarrow> Motion list list \<Rightarrow> Transform list \<Rightarrow> Motion list list
   \<Rightarrow> nat list \<Rightarrow> Motion list list" where
  \<comment> \<open>The loop \<open>for i in range(0, num_dofs)\<close> of \<open>cdof_fn\<close>, with its variables \<open>j\<close> and
      \<open>jds\<close>: the motion of axis \<open>i\<close> is appended before \<open>j\<close> takes the transform of axis
      \<open>i\<close> in.\<close>
  "cdof_loop lib j_stack jd_stack j jds [] = jds"
| "cdof_loop lib j_stack jd_stack j jds (i # rest) =
     cdof_loop lib j_stack jd_stack
       (map2 (transform_do lib) j (take_axis1 j_stack i))
       (jds @ [map2 (transform_do_motion lib) (map (transform_inv lib) j) (take_axis1 jd_stack i)])
       rest"

definition cdof_fn ::
  "brax_lib \<Rightarrow> char \<Rightarrow> real list \<Rightarrow> Motion list \<Rightarrow> Motion list option" where
  \<comment> \<open>The argument \<open>motions\<close> is \<open>motion\<close> in the source.\<close>
  "cdof_fn lib typ q motions =
     (if typ = CHR ''f'' then Some motions
      else case int_typ typ of
        None \<Rightarrow> None
      | Some num_dofs \<Rightarrow>
          if num_dofs = 0 \<or> length q \<noteq> length motions then None
          else
            let j = map2 (\<lambda>m qk. \<lparr>pos = vscale qk (vel m),
                                   rot = math_normalize lib (math_quat_rot_axis lib (ang m) qk)\<rparr>)
                      motions q;
                jd = motions;
                num_links = length motions div num_dofs
            in if length motions \<noteq> num_links * num_dofs then None
               else
                 let j_stack = reshape_rows j num_links num_dofs;
                     jd_stack = reshape_rows jd num_links num_dofs;
                     jds = cdof_loop lib j_stack jd_stack (replicate num_links Transform_zero) []
                             [0..<num_dofs]
                 in Some (column_stack jds num_links))"

definition cd_fn :: "Motion list option \<Rightarrow> Motion list \<Rightarrow> nat list \<Rightarrow> Motion list" where
  "cd_fn cd_parent cdof_qd dof_idx =
     index_sum (case cd_parent of None \<Rightarrow> [0] | Some p \<Rightarrow> p) dof_idx cdof_qd"

fun cds_loop :: "Motion list list \<Rightarrow> Motion list list \<Rightarrow> nat list \<Rightarrow> Motion list list" where
  \<comment> \<open>The loop \<open>for i in range(0, num_dofs - 1)\<close> of \<open>cdofd_fn\<close>:
      \<open>cds.append(cds[-1] + cdof_qd.take(i, axis=1))\<close>.\<close>
  "cds_loop stack cds [] = cds"
| "cds_loop stack cds (i # rest) =
     cds_loop stack (cds @ [map2 (\<lambda>a b. a + b) (last cds) (take_axis1 stack i)]) rest"

definition cdofd_fn ::
  "char \<Rightarrow> Motion list \<Rightarrow> Motion list \<Rightarrow> Motion list \<Rightarrow> Motion list option" where
  "cdofd_fn typ cd cdof cdof_qd =
     (if typ = CHR ''f'' then
        if length cdof_qd mod 6 \<noteq> 0 \<or> length cdof mod 6 \<noteq> 0
           \<or> length cdof_qd div 6 \<noteq> length cdof div 6 then None
        else
          let cdof_qd6 = reshape_rows cdof_qd (length cdof_qd div 6) 6;
              cd6 = map (\<lambda>row. sum_list (take 3 row)) cdof_qd6;
              cdofd = map2 (\<lambda>c row. map (motion_cross c) row) cd6
                        (reshape_rows cdof (length cdof div 6) 6);
              cdofd0 = map (\<lambda>row. replicate 3 0 @ drop 3 row) cdofd
          in Some (concat cdofd0)
      else case int_typ typ of
        None \<Rightarrow> None
      | Some num_dofs \<Rightarrow>
          if num_dofs = 0 \<or> length cdof_qd \<noteq> length cd * num_dofs then None
          else
            let stack = reshape_rows cdof_qd (length cd) num_dofs;
                cds = cds_loop stack [cd] [0..<num_dofs - 1];
                cd_stack = column_stack cds (length cd)
            in if length cd_stack \<noteq> length cdof then None
               else Some (map2 motion_cross cd_stack cdof))"

definition pidx_of :: "System \<Rightarrow> int list" where
  \<comment> \<open>The list \<open>pidx\<close> of \<open>transform_com\<close>: the link itself for a free joint, and the parent
      otherwise.\<close>
  "pidx_of sys =
     map (\<lambda>(i, (t, p)). if t = CHR ''f'' then int i else p)
       (enumerate 0 (zip (link_types sys) (link_parents sys)))"

definition xi_of :: "brax_lib \<Rightarrow> System \<Rightarrow> Transform list \<Rightarrow> Transform list" where
  \<comment> \<open>\<open>xi = x.vmap().do(sys.link.inertia.transform)\<close>\<close>
  "xi_of lib sys x = map2 (transform_do lib) x (map (\<lambda>l. transform (link_inertia l)) (link sys))"

definition com_of :: "brax_lib \<Rightarrow> System \<Rightarrow> Transform list \<Rightarrow> vec3" where
  \<comment> \<open>\<open>com = jp.sum(jax.vmap(jp.multiply)(mass, xi.pos), axis=0) / jp.sum(mass)\<close>\<close>
  "com_of lib sys x =
     (let xi = xi_of lib sys x;
          mass = map (\<lambda>l. mass (link_inertia l)) (link sys)
      in vdiv (sum_list (map2 vscale mass (map pos xi))) (sum_list mass))"

definition cinr_frame :: "brax_lib \<Rightarrow> System \<Rightarrow> Transform list \<Rightarrow> Transform list" where
  \<comment> \<open>\<open>xi.replace(pos=xi.pos - com)\<close>\<close>
  "cinr_frame lib sys x = map (\<lambda>t. t\<lparr>pos := pos t - com_of lib sys x\<rparr>) (xi_of lib sys x)"

definition cinr_of :: "brax_lib \<Rightarrow> System \<Rightarrow> Transform list \<Rightarrow> Inertia list" where
  \<comment> \<open>\<open>cinr = xi.replace(pos=xi.pos - com).vmap().do(sys.link.inertia)\<close>\<close>
  "cinr_of lib sys x =
     map2 (transform_do_inertia lib) (cinr_frame lib sys x) (map link_inertia (link sys))"

definition joint_frame :: "brax_lib \<Rightarrow> System \<Rightarrow> Transform list \<Rightarrow> Transform list" where
  \<comment> \<open>\<open>j = x_pad.take(pidx).vmap().do(sys.link.transform).vmap().do(sys.link.joint)\<close>\<close>
  "joint_frame lib sys x =
     (let x_pad = x @ [Transform_zero]
      in map2 (transform_do lib)
           (map2 (transform_do lib) (take_idx x_pad (pidx_of sys)) (map link_transform (link sys)))
           (map link_joint (link sys)))"

definition cdof_of ::
  "brax_lib \<Rightarrow> System \<Rightarrow> real list \<Rightarrow> Transform list \<Rightarrow> Motion list option" where
  \<comment> \<open>The lines of \<open>transform_com\<close> that compute \<open>cdof\<close>.\<close>
  "cdof_of lib sys q x =
     (case scan_link_types_opt lib sys
             (\<lambda>typ. cdof_fn lib typ (take_q lib sys typ q)
                      (take_d lib sys typ (map motion (dof sys)))) of
        None \<Rightarrow> None
      | Some cdof \<Rightarrow>
          let jd = take_idx (joint_frame lib sys x) (map int (dof_link lib sys));
              ang_w = map2 (math_rotate lib) (map ang cdof) (map rot jd);
              cdof = map2 (\<lambda>m a. Motion a (vel m)) cdof ang_w
          in Some (map2 (transform_do_motion lib)
                     (map (\<lambda>t. Transform_create_pos (com_of lib sys x - pos t)) jd) cdof))"

definition cd_of :: "brax_lib \<Rightarrow> System \<Rightarrow> Motion list \<Rightarrow> Motion list" where
  \<comment> \<open>\<open>cd = scan.tree(sys, cd_fn, 'dd', cdof_qd, sys.dof_link(depth=True))\<close>\<close>
  "cd_of lib sys cdof_qd =
     scan_tree sys (\<lambda>cd_parent k. cd_fn cd_parent (take_level_d lib sys k cdof_qd)
                                     (take_level_d lib sys k (dof_link_depth lib sys)))"

definition transform_com ::
  "brax_lib \<Rightarrow> System \<Rightarrow> real list \<Rightarrow> real list \<Rightarrow> Transform list
   \<Rightarrow> (vec3 \<times> Inertia list \<times> Motion list \<times> Motion list \<times> Motion list) option" where
  "transform_com lib sys q qd x =
     (let com = com_of lib sys x;
          cinr = cinr_of lib sys x
      in case cdof_of lib sys q x of
           None \<Rightarrow> None
         | Some cdof \<Rightarrow>
             let cdof_qd = map2 motion_scale cdof qd;
                 cd = cd_of lib sys cdof_qd;
                 cd_p = take_idx (cd @ [0]) (pidx_of sys)
             in case scan_link_types_opt lib sys
                       (\<lambda>typ. cdofd_fn typ (take_l sys typ cd_p) (take_d lib sys typ cdof)
                                (take_d lib sys typ cdof_qd)) of
                  None \<Rightarrow> None
                | Some cdofd \<Rightarrow> Some (com, cinr, cd, cdof, cdofd))"

section \<open>Inverse dynamics\<close>

definition cdd_fn ::
  "System \<Rightarrow> Motion list option \<Rightarrow> Motion list \<Rightarrow> real list \<Rightarrow> nat list \<Rightarrow> Motion list" where
  "cdd_fn sys cdd_parent cdofd qd dof_idx =
     index_sum (case cdd_parent of None \<Rightarrow> [Motion_create_vel (- gravity sys)] | Some p \<Rightarrow> p)
       dof_idx (map2 motion_scale cdofd qd)"

definition cdd_of :: "brax_lib \<Rightarrow> System \<Rightarrow> Motion list \<Rightarrow> real list \<Rightarrow> Motion list" where
  \<comment> \<open>\<open>cdd = scan.tree(sys, cdd_fn, 'ddd', cdofd, qd, sys.dof_link(depth=True))\<close>\<close>
  "cdd_of lib sys cdofd qd =
     scan_tree sys (\<lambda>cdd_parent k. cdd_fn sys cdd_parent (take_level_d lib sys k cdofd)
                                      (take_level_d lib sys k qd)
                                      (take_level_d lib sys k (dof_link_depth lib sys)))"

definition frc :: "brax_lib \<Rightarrow> Inertia \<Rightarrow> Motion \<Rightarrow> Motion \<Rightarrow> Force" where
  "frc lib cinr cdd cd =
     inertia_mul lib cinr cdd + motion_cross_force lib cd (inertia_mul lib cinr cd)"

definition cfrc_fn :: "Force list option \<Rightarrow> Force list \<Rightarrow> Force list" where
  "cfrc_fn cfrc_child cfrc =
     (case cfrc_child of None \<Rightarrow> cfrc | Some c \<Rightarrow> map2 (\<lambda>a b. a + b) cfrc c)"

definition cfrc_of ::
  "brax_lib \<Rightarrow> System \<Rightarrow> Inertia list \<Rightarrow> Motion list \<Rightarrow> Motion list \<Rightarrow> real list
   \<Rightarrow> Force list" where
  \<comment> \<open>The accumulated link forces \<open>cfrc\<close> of \<open>inverse\<close>, after the backward scan.\<close>
  "cfrc_of lib sys cinr cd cdofd qd =
     (let cdd = cdd_of lib sys cdofd qd;
          cfrc_flat = map (\<lambda>(i, a, v). frc lib i a v) (zip cinr (zip cdd cd))
      in scan_tree_rev sys (\<lambda>cfrc_child k. cfrc_fn cfrc_child (take_level_l sys k cfrc_flat)))"

definition inverse_dyn ::
  "brax_lib \<Rightarrow> System \<Rightarrow> real list \<Rightarrow> Inertia list \<Rightarrow> Motion list \<Rightarrow> Motion list \<Rightarrow> Motion list
   \<Rightarrow> real list" where
  \<comment> \<open>\<open>inverse\<close> of the source.\<close>
  "inverse_dyn lib sys qd cinr cd cdof cdofd =
     (let cfrc = cfrc_of lib sys cinr cd cdofd qd
      in map2 motion_dot cdof (take_idx cfrc (map int (dof_link lib sys))))"

section \<open>Forward combination\<close>

definition forward ::
  "brax_lib \<Rightarrow> System \<Rightarrow> real list \<Rightarrow> real list \<Rightarrow> Inertia list \<Rightarrow> Motion list \<Rightarrow> Motion list
   \<Rightarrow> Motion list \<Rightarrow> real list \<Rightarrow> real list" where
  "forward lib sys q qd cinr cd cdof cdofd tau =
     (let qfrc_passive = passive_forces lib sys q qd;
          qfrc_bias = inverse_dyn lib sys qd cinr cd cdof cdofd;
          qfrc = map2 (\<lambda>a b. a + b) (map2 (\<lambda>a b. a - b) qfrc_passive qfrc_bias) tau
      in qfrc)"


section \<open>An instance of the library, and two mechanisms\<close>

text \<open>
  For evaluation on concrete inputs the parameters are instantiated with the textbook
  operations on unit quaternions and spatial vectors. A free joint owns seven entries of
  \<open>q\<close> (a position and a quaternion) and six dofs, a ball joint four and three, a joint of
  \<open>n\<close> stacked axes \<open>n\<close> and \<open>n\<close>.
\<close>

definition std_quat_mul :: "quat \<Rightarrow> quat \<Rightarrow> quat" where
  "std_quat_mul u v =
     Quat (qw u * qw v - qx u * qx v - qy u * qy v - qz u * qz v)
          (qw u * qx v + qx u * qw v + qy u * qz v - qz u * qy v)
          (qw u * qy v - qx u * qz v + qy u * qw v + qz u * qx v)
          (qw u * qz v + qx u * qy v - qy u * qx v + qz u * qw v)"

definition std_quat_inv :: "quat \<Rightarrow> quat" where
  "std_quat_inv u = Quat (qw u) (- qx u) (- qy u) (- qz u)"

definition std_rotate :: "vec3 \<Rightarrow> quat \<Rightarrow> vec3" where
  "std_rotate v u =
     (let s = qw u; a = Vec3 (qx u) (qy u) (qz u)
      in vscale (2 * vdot a v) a + vscale (s * s - vdot a a) v + vscale (2 * s) (vcross a v))"

definition std_quat_rot_axis :: "vec3 \<Rightarrow> real \<Rightarrow> quat" where
  "std_quat_rot_axis axis angle =
     Quat (cos (angle / 2)) (vx axis * sin (angle / 2)) (vy axis * sin (angle / 2))
          (vz axis * sin (angle / 2))"

definition std_normalize :: "quat \<Rightarrow> quat" where
  "std_normalize u =
     (let n = sqrt (qw u * qw u + qx u * qx u + qy u * qy u + qz u * qz u)
      in Quat (qw u / n) (qx u / n) (qy u / n) (qz u / n))"

definition std_transform_do :: "Transform \<Rightarrow> Transform \<Rightarrow> Transform" where
  "std_transform_do t o' =
     \<lparr>pos = pos t + std_rotate (pos o') (rot t), rot = std_quat_mul (rot t) (rot o')\<rparr>"

definition std_transform_do_motion :: "Transform \<Rightarrow> Motion \<Rightarrow> Motion" where
  "std_transform_do_motion t m =
     (let rot_t = std_quat_inv (rot t)
      in Motion (std_rotate (ang m) rot_t)
                (std_rotate (vel m - vcross (pos t) (ang m)) rot_t))"

definition std_transform_inv :: "Transform \<Rightarrow> Transform" where
  "std_transform_inv t =
     \<lparr>pos = std_rotate (- pos t) (std_quat_inv (rot t)), rot = std_quat_inv (rot t)\<rparr>"

definition mat_vec :: "mat3 \<Rightarrow> vec3 \<Rightarrow> vec3" where
  "mat_vec m v = (case m of (r1, r2, r3) \<Rightarrow> Vec3 (vdot r1 v) (vdot r2 v) (vdot r3 v))"

definition mat_transpose :: "mat3 \<Rightarrow> mat3" where
  "mat_transpose m =
     (case m of (r1, r2, r3) \<Rightarrow>
        (Vec3 (vx r1) (vx r2) (vx r3), Vec3 (vy r1) (vy r2) (vy r3), Vec3 (vz r1) (vz r2) (vz r3)))"

definition mat_rows :: "(vec3 \<Rightarrow> vec3) \<Rightarrow> mat3 \<Rightarrow> mat3" where
  "mat_rows g m = (case m of (r1, r2, r3) \<Rightarrow> (g r1, g r2, g r3))"

definition std_transform_do_inertia :: "Transform \<Rightarrow> Inertia \<Rightarrow> Inertia" where
  \<comment> \<open>The tensor rotated by the pose and moved by the parallel-axis term
      \<open>mass * (|p|\<^sup>2 1 - p p\<^sup>T)\<close>; the first moment \<open>mass * p\<close> as the new offset.\<close>
  "std_transform_do_inertia t it =
     (let p = pos t;
          rotated = mat_transpose (mat_rows (\<lambda>v. std_rotate v (rot t))
                      (mat_transpose (mat_rows (\<lambda>v. std_rotate v (rot t)) (inertia_i it))));
          shift = (\<lambda>e r. r + vscale (mass it) (vscale (vdot p p) e - vscale (vdot p e) p))
      in \<lparr>transform = \<lparr>pos = vscale (mass it) p, rot = rot t\<rparr>,
          inertia_i = (case rotated of (r1, r2, r3) \<Rightarrow>
                         (shift (Vec3 1 0 0) r1, shift (Vec3 0 1 0) r2, shift (Vec3 0 0 1) r3)),
          mass = mass it\<rparr>)"

definition std_inertia_mul :: "Inertia \<Rightarrow> Motion \<Rightarrow> Force" where
  "std_inertia_mul it m =
     Force (mat_vec (inertia_i it) (ang m) + vcross (pos (transform it)) (vel m))
           (vscale (mass it) (vel m) - vcross (pos (transform it)) (ang m))"

definition std_motion_cross_force :: "Motion \<Rightarrow> Force \<Rightarrow> Force" where
  "std_motion_cross_force m f =
     Force (vcross (ang m) (f_ang f) + vcross (vel m) (f_vel f)) (vcross (ang m) (f_vel f))"

definition std_q_width :: "char \<Rightarrow> nat" where
  "std_q_width c =
     (if c = CHR ''f'' then 7 else if c = CHR ''b'' then 4
      else case int_typ c of Some n \<Rightarrow> n | None \<Rightarrow> 0)"

definition std_qd_width :: "char \<Rightarrow> nat" where
  "std_qd_width c =
     (if c = CHR ''f'' then 6 else if c = CHR ''b'' then 3
      else case int_typ c of Some n \<Rightarrow> n | None \<Rightarrow> 0)"

definition std_lib :: brax_lib where
  "std_lib =
     \<lparr>math_rotate = std_rotate, math_quat_rot_axis = std_quat_rot_axis,
      math_normalize = std_normalize, transform_do = std_transform_do,
      transform_do_motion = std_transform_do_motion,
      transform_do_inertia = std_transform_do_inertia, transform_inv = std_transform_inv,
      inertia_mul = std_inertia_mul, motion_cross_force = std_motion_cross_force,
      q_width = std_q_width, qd_width = std_qd_width\<rparr>"

definition unit_inertia :: "vec3 \<Rightarrow> real \<Rightarrow> Inertia" where
  \<comment> \<open>A body of the given mass and unit tensor whose centre of mass sits at \<open>p\<close> in the
      link frame.\<close>
  "unit_inertia p m =
     \<lparr>transform = Transform_create_pos p,
      inertia_i = (Vec3 1 0 0, Vec3 0 1 0, Vec3 0 0 1), mass = m\<rparr>"

definition revolute :: "vec3 \<Rightarrow> real \<Rightarrow> real \<Rightarrow> DoF" where
  "revolute axis k c = \<lparr>motion = Motion axis 0, stiffness = k, damping = c\<rparr>"

definition chain12 :: System where
  \<comment> \<open>A root link on one revolute axis (about \<open>z\<close>) carrying a link on two stacked revolute
      axes (about \<open>x\<close>, then \<open>y\<close>).\<close>
  "chain12 =
     \<lparr>link = [\<lparr>link_transform = Transform_zero, link_joint = Transform_zero,
               link_inertia = unit_inertia (Vec3 1 0 0) 1\<rparr>,
              \<lparr>link_transform = Transform_create_pos (Vec3 2 0 0), link_joint = Transform_zero,
               link_inertia = unit_inertia (Vec3 0 1 0) 3\<rparr>],
      dof = [revolute (Vec3 0 0 1) 5 1, revolute (Vec3 1 0 0) 7 2, revolute (Vec3 0 1 0) 9 3],
      link_types = ''12'', link_parents = [-1, 0], gravity = Vec3 0 0 (-10)\<rparr>"

definition adrift12 :: System where
  \<comment> \<open>The mechanism \<open>chain12\<close> without gravity.\<close>
  "adrift12 = chain12\<lparr>gravity := 0\<rparr>"

definition chain12_x :: "Transform list" where
  \<comment> \<open>The world poses of the links of \<open>chain12\<close> at \<open>q = 0\<close>.\<close>
  "chain12_x = [Transform_zero, Transform_create_pos (Vec3 2 0 0)]"

definition tilted :: System where
  \<comment> \<open>One link on a revolute axis, with tensor \<open>diag(1, 2, 3)\<close> about its centre of mass,
      which sits at the origin of the link frame.\<close>
  "tilted =
     \<lparr>link = [\<lparr>link_transform = Transform_zero, link_joint = Transform_zero,
               link_inertia = \<lparr>transform = Transform_zero,
                                inertia_i = (Vec3 1 0 0, Vec3 0 2 0, Vec3 0 0 3), mass = 1\<rparr>\<rparr>],
      dof = [revolute (Vec3 1 0 0) 0 0],
      link_types = ''1'', link_parents = [-1], gravity = Vec3 0 0 (-10)\<rparr>"

definition tilted_x :: "Transform list" where
  \<comment> \<open>The world pose of the link of \<open>tilted\<close>: at the origin, turned about \<open>x\<close> by the angle
      whose half has cosine \<open>3/5\<close> and sine \<open>4/5\<close>.\<close>
  "tilted_x = [\<lparr>pos = Vec3 0 0 0, rot = Quat (3 / 5) (4 / 5) 0 0\<rparr>]"

definition free1 :: System where
  \<comment> \<open>A free-floating root link carrying a link on one revolute axis.\<close>
  "free1 =
     \<lparr>link = [\<lparr>link_transform = Transform_zero, link_joint = Transform_zero,
               link_inertia = unit_inertia 0 2\<rparr>,
              \<lparr>link_transform = Transform_create_pos (Vec3 0 0 1), link_joint = Transform_zero,
               link_inertia = unit_inertia (Vec3 0 0 1) 1\<rparr>],
      dof = [\<lparr>motion = Motion 0 (Vec3 1 0 0), stiffness = 4, damping = 1\<rparr>,
             \<lparr>motion = Motion 0 (Vec3 0 1 0), stiffness = 4, damping = 1\<rparr>,
             \<lparr>motion = Motion 0 (Vec3 0 0 1), stiffness = 4, damping = 1\<rparr>,
             \<lparr>motion = Motion (Vec3 1 0 0) 0, stiffness = 4, damping = 1\<rparr>,
             \<lparr>motion = Motion (Vec3 0 1 0) 0, stiffness = 4, damping = 1\<rparr>,
             \<lparr>motion = Motion (Vec3 0 0 1) 0, stiffness = 4, damping = 1\<rparr>,
             revolute (Vec3 0 1 0) 6 2],
      link_types = ''f1'', link_parents = [-1, 0], gravity = Vec3 0 0 (-10)\<rparr>"

definition free1_x :: "Transform list" where
  \<comment> \<open>World poses for \<open>free1\<close>: the root at \<open>(1, 2, 3)\<close>, turned half a turn about \<open>x\<close>.\<close>
  "free1_x = [\<lparr>pos = Vec3 1 2 3, rot = Quat 0 1 0 0\<rparr>, \<lparr>pos = Vec3 1 2 2, rot = Quat 0 1 0 0\<rparr>]"

section \<open>Well-shaped inputs\<close>

definition group_sized :: "brax_lib \<Rightarrow> System \<Rightarrow> (char \<Rightarrow> 'a list) \<Rightarrow> bool" where
  \<comment> \<open>The scanned function returns one row per dof of the group it is called on.\<close>
  "group_sized lib sys f =
     list_all (\<lambda>typ. length (f typ) = length (links_of_type sys typ) * qd_width lib typ)
       (link_types sys)"

definition passive_shapes :: "brax_lib \<Rightarrow> System \<Rightarrow> real list \<Rightarrow> real list \<Rightarrow> bool" where
  \<comment> \<open>The shapes \<open>_passive\<close> needs: \<open>q\<close>, \<open>qd\<close> and \<open>sys.dof\<close> have the sizes of the
      layout, and a link type outside \<open>fb\<close> owns as many entries of \<open>q\<close> as dofs (else
      \<open>-q * dof.stiffness\<close> has operands of different shapes).\<close>
  "passive_shapes lib sys q qd \<longleftrightarrow>
     length q = q_size lib sys \<and> length qd = qd_size lib sys \<and>
     length (dof sys) = qd_size lib sys \<and>
     list_all (\<lambda>typ. typ \<in> set ''fb'' \<or> q_width lib typ = qd_width lib typ) (link_types sys)"


definition tree_ordered :: "System \<Rightarrow> bool" where
  \<comment> \<open>The links form one rooted tree, stored parents before children: link \<open>0\<close> is the
      only root, and the parent of every other link is an earlier link.\<close>
  "tree_ordered sys \<longleftrightarrow>
     0 < num_links sys \<and> length (link_parents sys) = num_links sys \<and>
     link_parents sys ! 0 = - 1 \<and>
     list_all (\<lambda>i. 0 \<le> link_parents sys ! i \<and> link_parents sys ! i < int i)
       [1..<num_links sys]"

definition type_supported :: "brax_lib \<Rightarrow> char \<Rightarrow> bool" where
  \<comment> \<open>A free joint has the six dofs that \<open>cdofd_fn\<close> reshapes by; any other type is a
      digit, the number of its dofs (\<open>int(typ)\<close>) and of its entries of \<open>q\<close>.\<close>
  "type_supported lib typ \<longleftrightarrow>
     (if typ = CHR ''f'' then qd_width lib typ = 6
      else int_typ typ = Some (qd_width lib typ) \<and> 0 < qd_width lib typ
           \<and> q_width lib typ = qd_width lib typ)"

definition well_shaped ::
  "brax_lib \<Rightarrow> System \<Rightarrow> real list \<Rightarrow> real list \<Rightarrow> Transform list \<Rightarrow> bool" where
  \<comment> \<open>The preconditions of \<open>transform_com\<close>: the sizes of \<open>q\<close>, \<open>qd\<close>, \<open>x\<close> and of the
      arrays of the mechanism agree with its layout, and the links form one tree.\<close>
  "well_shaped lib sys q qd x \<longleftrightarrow>
     tree_ordered sys \<and> length (link sys) = num_links sys \<and> length x = num_links sys \<and>
     length (dof sys) = qd_size lib sys \<and> length q = q_size lib sys \<and>
     length qd = qd_size lib sys \<and> list_all (type_supported lib) (link_types sys)"

section \<open>Evaluation on concrete inputs\<close>

lemma replicate_numeral: "replicate (numeral k) x = x # replicate (pred_numeral k) x"
  by (simp add: numeral_eq_Suc)

lemmas lib_simps = std_lib_def std_quat_mul_def std_quat_inv_def std_rotate_def
  std_quat_rot_axis_def std_normalize_def std_transform_do_def std_transform_do_motion_def
  std_transform_inv_def mat_vec_def mat_transpose_def mat_rows_def std_transform_do_inertia_def
  std_inertia_mul_def std_motion_cross_force_def std_q_width_def std_qd_width_def int_typ_def
  vscale_def vdiv_def vcross_def vdot_def zero_vec3_def plus_vec3_def minus_vec3_def
  uminus_vec3_def zero_Motion_def plus_Motion_def zero_Force_def plus_Force_def
  Transform_zero_def Transform_create_pos_def Motion_create_vel_def unit_inertia_def
  revolute_def motion_scale_def motion_cross_def motion_dot_def

lemmas sys_simps = chain12_def chain12_x_def free1_def free1_x_def

lemmas scan_simps = slice_def num_links_def dof_start_def q_start_def qd_size_def q_size_def
  dof_link_def links_of_type_def type_rank_def take_l_def take_d_def take_q_def
  scan_link_types_def scan_link_types_opt_def take_idx_def depth_def level_def level_rank_def
  max_depth_def dof_link_depth_def take_level_l_def take_level_d_def scan_tree_def
  scan_tree_rev_def reshape_rows_def take_axis1_def column_stack_def replicate_numeral

section \<open>Lists, ranges and the scan by joint type\<close>

lemma concat_map_nth_at:
  "i < length xs \<Longrightarrow> k < length (f (xs ! i)) \<Longrightarrow>
   concat (map f xs) ! (sum_list (map (\<lambda>x. length (f x)) (take i xs)) + k) = f (xs ! i) ! k"
proof (induction xs arbitrary: i)
  case Nil
  then show ?case by simp
next
  case (Cons x xs)
  show ?case
  proof (cases i)
    case 0
    with Cons.prems show ?thesis by (simp add: nth_append)
  next
    case (Suc j)
    with Cons.prems have "j < length xs" "k < length (f (xs ! j))" by simp_all
    from Cons.IH[OF this] Suc show ?thesis by (simp add: nth_append add.assoc)
  qed
qed

lemma sum_list_const_width:
  "(\<forall>x\<in>set xs. g x = w) \<Longrightarrow> sum_list (map g xs) = length xs * w"
  by (induction xs) auto

lemma concat_map_nth_chunk:
  assumes "\<forall>x\<in>set xs. length (f x) = w" "r < length xs" "k < w"
  shows "concat (map f xs) ! (r * w + k) = f (xs ! r) ! k"
proof -
  have "\<forall>x\<in>set (take r xs). length (f x) = w"
    using assms(1) by (meson in_set_takeD)
  then have "sum_list (map (\<lambda>x. length (f x)) (take r xs)) = r * w"
    using sum_list_const_width[of "take r xs" "\<lambda>x. length (f x)" w] assms(2) by simp
  moreover have "k < length (f (xs ! r))" using assms by simp
  ultimately show ?thesis using concat_map_nth_at[of r xs k f] assms(2) by simp
qed

lemma filter_upt_rank:
  assumes "i < n" "P i"
  shows "filter P [0..<n] ! length (filter P [0..<i]) = i"
    and "length (filter P [0..<i]) < length (filter P [0..<n])"
proof -
  have split: "[0..<n] = [0..<i] @ i # [Suc i..<n]"
    using assms(1) by (metis less_imp_le_nat upt_add_eq_append upt_conv_Cons le0 le_add_diff_inverse)
  show "filter P [0..<n] ! length (filter P [0..<i]) = i"
    by (subst split) (simp add: assms(2) nth_append)
  show "length (filter P [0..<i]) < length (filter P [0..<n])"
  proof -
    have "length (filter P [0..<n]) = length (filter P ([0..<i] @ i # [Suc i..<n]))"
      using split by simp
    then show ?thesis by (simp add: assms(2))
  qed
qed


lemma range_within:
  assumes "i < length ts"
  shows "sum_list (map g (take i ts)) + g (ts ! i) \<le> sum_list (map (g :: 'a \<Rightarrow> nat) ts)"
proof -
  have "ts = take i ts @ ts ! i # drop (Suc i) ts"
    using assms by (simp add: id_take_nth_drop)
  then have "sum_list (map g ts) = sum_list (map g (take i ts @ ts ! i # drop (Suc i) ts))"
    by simp
  then show ?thesis by simp
qed

lemma dof_start_bound:
  "i < num_links sys \<Longrightarrow>
   dof_start lib sys i + qd_width lib (link_types sys ! i) \<le> qd_size lib sys"
  unfolding dof_start_def qd_size_def num_links_def by (rule range_within)

lemma q_start_bound:
  "i < num_links sys \<Longrightarrow>
   q_start lib sys i + q_width lib (link_types sys ! i) \<le> q_size lib sys"
  unfolding q_start_def q_size_def num_links_def by (rule range_within)

lemma length_slice: "s + w \<le> length xs \<Longrightarrow> length (slice xs s w) = w"
  by (simp add: slice_def)

lemma nth_slice: "s + w \<le> length xs \<Longrightarrow> k < w \<Longrightarrow> slice xs s w ! k = xs ! (s + k)"
  by (simp add: slice_def)

lemma links_of_type_mem:
  "j \<in> set (links_of_type sys typ) \<longleftrightarrow> j < num_links sys \<and> link_types sys ! j = typ"
  by (auto simp: links_of_type_def)

lemma links_of_type_rank:
  assumes "i < num_links sys"
  shows "links_of_type sys (link_types sys ! i) ! type_rank sys i = i"
    and "type_rank sys i < length (links_of_type sys (link_types sys ! i))"
  unfolding links_of_type_def type_rank_def
  using filter_upt_rank[of i "num_links sys" "\<lambda>j. link_types sys ! j = link_types sys ! i"] assms
  by simp_all

lemma take_ranges_nth:
  assumes "i < num_links sys" "k < w"
    and "\<forall>j\<in>set (links_of_type sys (link_types sys ! i)). st j + w \<le> length xs"
  shows "concat (map (\<lambda>j. slice xs (st j) w) (links_of_type sys (link_types sys ! i)))
           ! (type_rank sys i * w + k) = xs ! (st i + k)"
proof -
  let ?ls = "links_of_type sys (link_types sys ! i)"
  have len: "\<forall>j\<in>set ?ls. length (slice xs (st j) w) = w"
    using assms(3) by (simp add: length_slice)
  have "concat (map (\<lambda>j. slice xs (st j) w) ?ls) ! (type_rank sys i * w + k)
        = slice xs (st (?ls ! type_rank sys i)) w ! k"
    using concat_map_nth_chunk[OF len links_of_type_rank(2)[OF assms(1)] assms(2)] .
  also have "\<dots> = slice xs (st i) w ! k"
    by (simp add: links_of_type_rank(1)[OF assms(1)])
  also have "\<dots> = xs ! (st i + k)"
  proof -
    have "i \<in> set ?ls" using assms(1) by (simp add: links_of_type_mem)
    then have "st i + w \<le> length xs" using assms(3) by blast
    then show ?thesis using assms(2) by (rule nth_slice)
  qed
  finally show ?thesis .
qed

lemma take_ranges_length:
  assumes "\<forall>j\<in>set (links_of_type sys typ). st j + w \<le> length xs"
  shows "length (concat (map (\<lambda>j. slice xs (st j) w) (links_of_type sys typ)))
           = length (links_of_type sys typ) * w"
proof -
  have "\<forall>j\<in>set (links_of_type sys typ). length (slice xs (st j) w) = w"
    using assms by (simp add: length_slice)
  then show ?thesis
    by (simp add: length_concat comp_def sum_list_const_width)
qed

lemma take_d_nth:
  assumes "i < num_links sys" "k < qd_width lib (link_types sys ! i)"
    and "qd_size lib sys \<le> length xs"
  shows "take_d lib sys (link_types sys ! i) xs
           ! (type_rank sys i * qd_width lib (link_types sys ! i) + k)
         = xs ! (dof_start lib sys i + k)"
proof -
  have "\<forall>j\<in>set (links_of_type sys (link_types sys ! i)).
          dof_start lib sys j + qd_width lib (link_types sys ! i) \<le> length xs"
    using dof_start_bound[of _ sys lib] assms(3)
    by (fastforce simp: links_of_type_mem)
  from take_ranges_nth[OF assms(1,2) this] show ?thesis
    by (simp add: take_d_def)
qed

lemma take_d_length:
  assumes "qd_size lib sys \<le> length xs"
  shows "length (take_d lib sys typ xs) = length (links_of_type sys typ) * qd_width lib typ"
proof -
  have "\<forall>j\<in>set (links_of_type sys typ). dof_start lib sys j + qd_width lib typ \<le> length xs"
    using dof_start_bound[of _ sys lib] assms
    by (fastforce simp: links_of_type_mem)
  from take_ranges_length[OF this] show ?thesis
    by (simp add: take_d_def)
qed

lemma take_q_nth:
  assumes "i < num_links sys" "k < q_width lib (link_types sys ! i)"
    and "q_size lib sys \<le> length xs"
  shows "take_q lib sys (link_types sys ! i) xs
           ! (type_rank sys i * q_width lib (link_types sys ! i) + k)
         = xs ! (q_start lib sys i + k)"
proof -
  have "\<forall>j\<in>set (links_of_type sys (link_types sys ! i)).
          q_start lib sys j + q_width lib (link_types sys ! i) \<le> length xs"
    using q_start_bound[of _ sys lib] assms(3)
    by (fastforce simp: links_of_type_mem)
  from take_ranges_nth[OF assms(1,2) this] show ?thesis
    by (simp add: take_q_def)
qed

lemma take_q_length:
  assumes "q_size lib sys \<le> length xs"
  shows "length (take_q lib sys typ xs) = length (links_of_type sys typ) * q_width lib typ"
proof -
  have "\<forall>j\<in>set (links_of_type sys typ). q_start lib sys j + q_width lib typ \<le> length xs"
    using q_start_bound[of _ sys lib] assms
    by (fastforce simp: links_of_type_mem)
  from take_ranges_length[OF this] show ?thesis
    by (simp add: take_q_def)
qed

lemma take_l_nth:
  assumes "i < num_links sys" "num_links sys \<le> length xs"
  shows "take_l sys (link_types sys ! i) xs ! type_rank sys i = xs ! i"
proof -
  have "\<forall>j\<in>set (links_of_type sys (link_types sys ! i)). j + 1 \<le> length xs"
    using assms(2) by (fastforce simp: links_of_type_mem)
  from take_ranges_nth[OF assms(1) _ this, of 0] show ?thesis
    by (simp add: take_l_def)
qed

lemma take_l_length:
  assumes "num_links sys \<le> length xs"
  shows "length (take_l sys typ xs) = length (links_of_type sys typ)"
proof -
  have "\<forall>j\<in>set (links_of_type sys typ). j + 1 \<le> length xs"
    using assms by (fastforce simp: links_of_type_mem)
  from take_ranges_length[OF this] show ?thesis
    by (simp add: take_l_def)
qed

lemma scan_piece_length:
  assumes "group_sized lib sys f" "j < num_links sys"
  shows "length (slice (f (link_types sys ! j))
            (type_rank sys j * qd_width lib (link_types sys ! j))
            (qd_width lib (link_types sys ! j))) = qd_width lib (link_types sys ! j)"
proof -
  let ?t = "link_types sys ! j"
  have "length (f ?t) = length (links_of_type sys ?t) * qd_width lib ?t"
    using assms by (simp add: group_sized_def list_all_length num_links_def)
  moreover have "Suc (type_rank sys j) \<le> length (links_of_type sys ?t)"
    using links_of_type_rank(2)[OF assms(2)] by simp
  then have "Suc (type_rank sys j) * qd_width lib ?t
             \<le> length (links_of_type sys ?t) * qd_width lib ?t"
    by (rule mult_le_mono1)
  ultimately show ?thesis by (simp add: length_slice)
qed

lemma scan_link_types_length:
  assumes "group_sized lib sys f"
  shows "length (scan_link_types lib sys f) = qd_size lib sys"
proof -
  let ?g = "\<lambda>i. slice (f (link_types sys ! i))
            (type_rank sys i * qd_width lib (link_types sys ! i))
            (qd_width lib (link_types sys ! i))"
  have "map (\<lambda>i. length (?g i)) [0..<num_links sys]
        = map (\<lambda>i. qd_width lib (link_types sys ! i)) [0..<num_links sys]"
  proof (rule map_cong[OF refl])
    fix i assume "i \<in> set [0..<num_links sys]"
    then have "i < num_links sys" by simp
    from scan_piece_length[OF assms this]
    show "length (?g i) = qd_width lib (link_types sys ! i)" .
  qed
  also have "\<dots> = map (qd_width lib) (link_types sys)"
    unfolding num_links_def by (rule nth_equalityI) simp_all
  finally have eq: "map (\<lambda>i. length (?g i)) [0..<num_links sys]
                    = map (qd_width lib) (link_types sys)" .
  have "length (scan_link_types lib sys f)
        = sum_list (map (\<lambda>i. length (?g i)) [0..<num_links sys])"
    by (simp only: scan_link_types_def Let_def length_concat map_map comp_def)
  then show ?thesis
    by (simp only: eq qd_size_def)
qed

lemma scan_link_types_nth:
  assumes "group_sized lib sys f" "i < num_links sys" "k < qd_width lib (link_types sys ! i)"
  shows "scan_link_types lib sys f ! (dof_start lib sys i + k)
         = f (link_types sys ! i) ! (type_rank sys i * qd_width lib (link_types sys ! i) + k)"
proof -
  let ?g = "\<lambda>j. slice (f (link_types sys ! j))
            (type_rank sys j * qd_width lib (link_types sys ! j))
            (qd_width lib (link_types sys ! j))"
  let ?t = "link_types sys ! i"
  have lens: "\<And>j. j < num_links sys \<Longrightarrow> length (?g j) = qd_width lib (link_types sys ! j)"
    using scan_piece_length[OF assms(1)] .
  have "map (\<lambda>j. length (?g j)) (take i [0..<num_links sys])
        = map (\<lambda>j. qd_width lib (link_types sys ! j)) [0..<i]"
  proof -
    have "take i [0..<num_links sys] = [0..<i]" using assms(2) by simp
    moreover have "map (\<lambda>j. length (?g j)) [0..<i]
                   = map (\<lambda>j. qd_width lib (link_types sys ! j)) [0..<i]"
    proof (rule map_cong[OF refl])
      fix j assume "j \<in> set [0..<i]"
      then have "j < num_links sys" using assms(2) by simp
      from lens[OF this] show "length (?g j) = qd_width lib (link_types sys ! j)" .
    qed
    ultimately show ?thesis by simp
  qed
  also have "\<dots> = map (qd_width lib) (take i (link_types sys))"
    using assms(2) unfolding num_links_def
    by (intro nth_equalityI) simp_all
  finally have st: "sum_list (map (\<lambda>j. length (?g j)) (take i [0..<num_links sys]))
                    = dof_start lib sys i"
    by (simp add: dof_start_def)
  have "concat (map ?g [0..<num_links sys]) ! (dof_start lib sys i + k)
        = ?g ([0..<num_links sys] ! i) ! k"
    using concat_map_nth_at[of i "[0..<num_links sys]" k ?g] assms(2,3) lens[OF assms(2)] st
    by simp
  also have "\<dots> = ?g i ! k" using assms(2) by simp
  also have "\<dots> = f ?t ! (type_rank sys i * qd_width lib ?t + k)"
  proof -
    have "length (f ?t) = length (links_of_type sys ?t) * qd_width lib ?t"
      using assms(1,2) by (simp add: group_sized_def list_all_length num_links_def)
    moreover have "Suc (type_rank sys i) \<le> length (links_of_type sys ?t)"
      using links_of_type_rank(2)[OF assms(2)] by simp
    then have "Suc (type_rank sys i) * qd_width lib ?t
               \<le> length (links_of_type sys ?t) * qd_width lib ?t"
      by (rule mult_le_mono1)
    ultimately have "type_rank sys i * qd_width lib ?t + qd_width lib ?t \<le> length (f ?t)"
      by simp
    then show ?thesis using assms(3) by (rule nth_slice)
  qed
  finally show ?thesis by (simp add: scan_link_types_def Let_def)
qed



section \<open>Properties of the passive forces\<close>

lemma range_decompose:
  "d < sum_list (ws :: nat list) \<Longrightarrow> \<exists>i k. i < length ws \<and> k < ws ! i \<and> d = sum_list (take i ws) + k"
proof (induction ws arbitrary: d)
  case Nil
  then show ?case by simp
next
  case (Cons w ws)
  show ?case
  proof (cases "d < w")
    case True
    then have "0 < length (w # ws) \<and> d < (w # ws) ! 0 \<and> d = sum_list (take 0 (w # ws)) + d"
      by simp
    then show ?thesis by blast
  next
    case False
    with Cons.prems have "d - w < sum_list ws" by simp
    from Cons.IH[OF this] obtain i k where
      ik: "i < length ws" "k < ws ! i" "d - w = sum_list (take i ws) + k" by blast
    then have "Suc i < length (w # ws) \<and> k < (w # ws) ! Suc i
               \<and> d = sum_list (take (Suc i) (w # ws)) + k"
      using False by simp
    then show ?thesis by blast
  qed
qed

lemma dof_decompose:
  assumes "d < qd_size lib sys"
  obtains i k where "i < num_links sys" "k < qd_width lib (link_types sys ! i)"
    "d = dof_start lib sys i + k"
proof -
  from range_decompose[of d "map (qd_width lib) (link_types sys)"] assms
  obtain i k where "i < length (link_types sys)"
    "k < map (qd_width lib) (link_types sys) ! i"
    "d = sum_list (take i (map (qd_width lib) (link_types sys))) + k"
    unfolding qd_size_def by auto
  then have "i < num_links sys" "k < qd_width lib (link_types sys ! i)"
    "d = dof_start lib sys i + k"
    by (simp_all add: num_links_def dof_start_def take_map)
  then show thesis by (rule that)
qed

lemma dof_link_length: "length (dof_link lib sys) = qd_size lib sys"
proof -
  have "map (\<lambda>i. qd_width lib (link_types sys ! i)) [0..<length (link_types sys)]
        = map (qd_width lib) (link_types sys)"
    by (rule nth_equalityI) simp_all
  then show ?thesis
    by (simp add: dof_link_def length_concat comp_def qd_size_def num_links_def)
qed

lemma dof_link_nth:
  assumes "i < num_links sys" "k < qd_width lib (link_types sys ! i)"
  shows "dof_link lib sys ! (dof_start lib sys i + k) = i"
proof -
  let ?g = "\<lambda>j. replicate (qd_width lib (link_types sys ! j)) j"
  have "map (\<lambda>j. length (?g j)) (take i [0..<num_links sys])
        = map (qd_width lib) (take i (link_types sys))"
    using assms(1) unfolding num_links_def by (intro nth_equalityI) simp_all
  then have st: "sum_list (map (\<lambda>j. length (?g j)) (take i [0..<num_links sys]))
                 = dof_start lib sys i"
    by (simp only: dof_start_def)
  have "concat (map ?g [0..<num_links sys]) ! (dof_start lib sys i + k)
        = ?g ([0..<num_links sys] ! i) ! k"
    using concat_map_nth_at[of i "[0..<num_links sys]" k ?g] assms st by simp
  then show ?thesis using assms by (simp add: dof_link_def)
qed

lemma stiffness_fn_length:
  assumes "typ \<in> set ''fb'' \<or> length q = length dofs"
  shows "length (stiffness_fn typ q dofs) = length dofs"
  using assms by (auto simp: stiffness_fn_def)

lemma stiffness_fn_nth:
  assumes "m < length dofs" "typ \<in> set ''fb'' \<or> length q = length dofs"
  shows "stiffness_fn typ q dofs ! m
         = (if typ \<in> set ''fb'' then 0 else - (q ! m) * stiffness (dofs ! m))"
  using assms by (auto simp: stiffness_fn_def)

lemma passive_group_sized:
  assumes "passive_shapes lib sys q qd"
  shows "group_sized lib sys
           (\<lambda>typ. stiffness_fn typ (take_q lib sys typ q) (take_d lib sys typ (dof sys)))"
proof -
  have lq: "q_size lib sys \<le> length q" and ld: "qd_size lib sys \<le> length (dof sys)"
    using assms by (simp_all add: passive_shapes_def)
  have "\<And>typ. typ \<in> set (link_types sys) \<Longrightarrow>
          length (stiffness_fn typ (take_q lib sys typ q) (take_d lib sys typ (dof sys)))
          = length (links_of_type sys typ) * qd_width lib typ"
  proof -
    fix t assume "t \<in> set (link_types sys)"
    then have "t \<in> set ''fb'' \<or> q_width lib t = qd_width lib t"
      using assms by (simp add: passive_shapes_def list_all_iff)
    then have "t \<in> set ''fb''
               \<or> length (take_q lib sys t q) = length (take_d lib sys t (dof sys))"
      by (auto simp only: take_q_length[OF lq] take_d_length[OF ld])
    from stiffness_fn_length[OF this] show
      "length (stiffness_fn t (take_q lib sys t q) (take_d lib sys t (dof sys)))
       = length (links_of_type sys t) * qd_width lib t"
      by (simp only: take_d_length[OF ld])
  qed
  then show ?thesis by (simp add: group_sized_def list_all_iff)
qed

lemma passive_forces_length:
  assumes "passive_shapes lib sys q qd"
  shows "length (passive_forces lib sys q qd) = qd_size lib sys"
  using assms scan_link_types_length[OF passive_group_sized[OF assms]]
  by (simp add: passive_forces_def passive_shapes_def)

lemma passive_forces_at:
  assumes sh: "passive_shapes lib sys q qd"
    and i: "i < num_links sys" and k: "k < qd_width lib (link_types sys ! i)"
  shows "passive_forces lib sys q qd ! (dof_start lib sys i + k)
         = (if link_types sys ! i \<in> set ''fb'' then 0
            else - (q ! (q_start lib sys i + k)) * stiffness (dof sys ! (dof_start lib sys i + k)))
           - damping (dof sys ! (dof_start lib sys i + k)) * qd ! (dof_start lib sys i + k)"
proof -
  let ?t = "link_types sys ! i"
  let ?f = "\<lambda>typ. stiffness_fn typ (take_q lib sys typ q) (take_d lib sys typ (dof sys))"
  let ?d = "dof_start lib sys i + k"
  let ?m = "type_rank sys i * qd_width lib ?t + k"
  have lq: "q_size lib sys \<le> length q" and ld: "qd_size lib sys \<le> length (dof sys)"
    using sh by (simp_all add: passive_shapes_def)
  have dlt: "?d < qd_size lib sys" using dof_start_bound[OF i, of lib] k by simp
  have tq: "?t \<in> set ''fb'' \<or> q_width lib ?t = qd_width lib ?t"
    using sh i by (simp add: passive_shapes_def list_all_length num_links_def)
  have gs: "group_sized lib sys ?f" by (rule passive_group_sized[OF sh])
  have mlt: "?m < length (take_d lib sys ?t (dof sys))"
  proof -
    have "Suc (type_rank sys i) \<le> length (links_of_type sys ?t)"
      using links_of_type_rank(2)[OF i] by simp
    then have "Suc (type_rank sys i) * qd_width lib ?t
               \<le> length (links_of_type sys ?t) * qd_width lib ?t"
      by (rule mult_le_mono1)
    then show ?thesis using k by (simp add: take_d_length[OF ld])
  qed
  have leq: "?t \<in> set ''fb''
             \<or> length (take_q lib sys ?t q) = length (take_d lib sys ?t (dof sys))"
    using tq by (auto simp only: take_q_length[OF lq] take_d_length[OF ld])
  have scan: "scan_link_types lib sys ?f ! ?d = ?f ?t ! ?m"
    by (rule scan_link_types_nth[OF gs i k])
  have "?f ?t ! ?m = (if ?t \<in> set ''fb'' then 0
          else - (take_q lib sys ?t q ! ?m) * stiffness (take_d lib sys ?t (dof sys) ! ?m))"
    by (rule stiffness_fn_nth[OF mlt leq])
  also have "take_d lib sys ?t (dof sys) ! ?m = dof sys ! ?d"
    by (rule take_d_nth[OF i k ld])
  finally have f_at: "?f ?t ! ?m = (if ?t \<in> set ''fb'' then 0
          else - (take_q lib sys ?t q ! ?m) * stiffness (dof sys ! ?d))" .
  have q_at: "?t \<notin> set ''fb'' \<Longrightarrow> take_q lib sys ?t q ! ?m = q ! (q_start lib sys i + k)"
  proof -
    assume "?t \<notin> set ''fb''"
    with tq have w: "q_width lib ?t = qd_width lib ?t" by blast
    with k have "k < q_width lib ?t" by simp
    from take_q_nth[OF i this lq] show ?thesis by (simp only: w)
  qed
  have "passive_forces lib sys q qd ! ?d
        = scan_link_types lib sys ?f ! ?d - damping (dof sys ! ?d) * qd ! ?d"
    using dlt sh scan_link_types_length[OF gs]
    by (simp add: passive_forces_def passive_shapes_def)
  then show ?thesis using scan f_at q_at by auto
qed

text \<open>
  C7. For every dof \<open>d\<close>, driving link \<open>i = dof_link ! d\<close>, the passive force is
  \<open>- stiffness * q - damping * qd\<close>, where \<open>q\<close> is the coordinate of that dof (the entry of
  \<open>q\<close> at the dof's offset within the \<open>q\<close> range of its link); for a link of type \<open>f\<close>
  (free) or \<open>b\<close> (ball) the stiffness term is zero and the damping term remains.
\<close>

theorem passive_force_per_dof:
  assumes "passive_shapes lib sys q qd" and "d < qd_size lib sys"
  shows "passive_forces lib sys q qd ! d =
           (let i = dof_link lib sys ! d; k = d - dof_start lib sys i
            in (if link_types sys ! i \<in> set ''fb'' then 0
                else - stiffness (dof sys ! d) * q ! (q_start lib sys i + k))
               - damping (dof sys ! d) * qd ! d)"
proof -
  from dof_decompose[OF assms(2)] obtain i k where
    ik: "i < num_links sys" "k < qd_width lib (link_types sys ! i)"
        "d = dof_start lib sys i + k" by blast
  have "dof_link lib sys ! d = i" using dof_link_nth[OF ik(1,2)] ik(3) by simp
  moreover have "d - dof_start lib sys i = k" using ik(3) by simp
  ultimately show ?thesis
    using passive_forces_at[OF assms(1) ik(1,2)] ik(3) by (simp add: Let_def)
qed

theorem passive_force_per_dof_witness:
  "passive_shapes std_lib free1 [1, 2, 3, 4, 5, 6, 7, 8] [10, 20, 30, 40, 50, 60, 70]
   \<and> (6::nat) < qd_size std_lib free1
   \<and> passive_forces std_lib free1 [1, 2, 3, 4, 5, 6, 7, 8] [10, 20, 30, 40, 50, 60, 70] ! 6
       = - 6 * 8 - 2 * 70
   \<and> (2::nat) < qd_size std_lib free1
   \<and> passive_forces std_lib free1 [1, 2, 3, 4, 5, 6, 7, 8] [10, 20, 30, 40, 50, 60, 70] ! 2
       = 0 - 1 * 30"
proof -
  have sh: "passive_shapes std_lib free1 [1, 2, 3, 4, 5, 6, 7, 8] [10, 20, 30, 40, 50, 60, 70]"
    by (simp add: passive_shapes_def lib_simps sys_simps scan_simps)
  have d6: "(6::nat) < qd_size std_lib free1" and d2: "(2::nat) < qd_size std_lib free1"
    by (simp_all add: lib_simps sys_simps scan_simps)
  have r6: "passive_forces std_lib free1 [1, 2, 3, 4, 5, 6, 7, 8] [10, 20, 30, 40, 50, 60, 70] ! 6
            = - 6 * 8 - 2 * 70"
    by (subst passive_force_per_dof[OF sh d6])
      (simp add: lib_simps sys_simps scan_simps Let_def)
  have r2: "passive_forces std_lib free1 [1, 2, 3, 4, 5, 6, 7, 8] [10, 20, 30, 40, 50, 60, 70] ! 2
            = 0 - 1 * 30"
    by (subst passive_force_per_dof[OF sh d2])
      (simp add: lib_simps sys_simps scan_simps Let_def)
  show ?thesis
    using sh d6 d2 r6 r2 by blast
qed

lemma slice_map: "slice (map g xs) s w = map g (slice xs s w)"
  by (simp add: slice_def take_map drop_map)

lemma take_q_map: "take_q lib sys typ (map g xs) = map g (take_q lib sys typ xs)"
  by (simp add: take_q_def slice_map map_concat comp_def)

lemma take_d_map: "take_d lib sys typ (map g xs) = map g (take_d lib sys typ xs)"
  by (simp add: take_d_def slice_map map_concat comp_def)

lemma take_l_map: "take_l sys typ (map g xs) = map g (take_l sys typ xs)"
  by (simp add: take_l_def slice_map map_concat comp_def)

lemma scan_link_types_map:
  "scan_link_types lib sys (\<lambda>typ. map g (f typ)) = map g (scan_link_types lib sys f)"
  by (simp add: scan_link_types_def slice_map map_concat comp_def Let_def)

lemma stiffness_fn_scale:
  "stiffness_fn typ (map (\<lambda>x. c * x) q) dofs = map (\<lambda>x. c * x) (stiffness_fn typ q dofs)"
  by (simp add: stiffness_fn_def zip_map1 comp_def case_prod_unfold)

lemma map2_scale:
  "map2 (\<lambda>f y. f - y) (map (\<lambda>x. c * x) fs) (map2 (\<lambda>d v. damping d * v) ds (map (\<lambda>x. c * x) vs))
   = map (\<lambda>x. (c::real) * x) (map2 (\<lambda>f y. f - y) fs (map2 (\<lambda>d v. damping d * v) ds vs))"
  by (simp add: zip_map1 zip_map2 comp_def case_prod_unfold right_diff_distrib mult.left_commute)

text \<open>
  C8. The passive force is homogeneous of degree one in \<open>(q, qd)\<close>: scaling both by a factor
  \<open>c\<close> scales the force by \<open>c\<close>, for every mechanism; with \<open>c = 2\<close>,
  \<open>_passive(sys, 2q, 2qd) = 2 * _passive(sys, q, qd)\<close>.
\<close>

theorem passive_homogeneous:
  "passive_forces lib sys (map (\<lambda>x. c * x) q) (map (\<lambda>x. c * x) qd)
   = map (\<lambda>x. c * x) (passive_forces lib sys q qd)"
  by (simp only: passive_forces_def Let_def take_q_map stiffness_fn_scale scan_link_types_map
        map2_scale)

theorem passive_homogeneous_witness:
  "passive_forces std_lib chain12 (map (\<lambda>x. 2 * x) [1, 2, 3]) (map (\<lambda>x. 2 * x) [10, 20, 30])
     = map (\<lambda>x. 2 * x) (passive_forces std_lib chain12 [1, 2, 3] [10, 20, 30])
   \<and> passive_forces std_lib chain12 [1, 2, 3] [10, 20, 30] = [- 15, - 54, - 117]"
proof -
  have v: "passive_forces std_lib chain12 [1, 2, 3] [10, 20, 30] = [- 15, - 54, - 117]"
    by (simp add: passive_forces_def stiffness_fn_def std_lib_def std_q_width_def
          std_qd_width_def int_typ_def chain12_def revolute_def scan_simps Let_def)
  show ?thesis
    by (rule conjI[OF passive_homogeneous v])
qed

section \<open>Shapes: the functions return on well-shaped inputs\<close>

lemma cdof_loop_length:
  "length (cdof_loop lib j_stack jd_stack j jds idx) = length jds + length idx"
  by (induction idx arbitrary: j jds) simp_all

lemma cds_loop_length: "length (cds_loop stack cds idx) = length cds + length idx"
  by (induction idx arbitrary: cds) simp_all

lemma column_stack_length: "length (column_stack cols rows) = rows * length cols"
  by (simp add: column_stack_def length_concat comp_def sum_list_triv)

lemma cdof_fn_returns:
  assumes "type_supported lib t" "t \<noteq> CHR ''f'' \<Longrightarrow> length q = length ms"
    and "length ms = c * qd_width lib t"
  shows "\<exists>r. cdof_fn lib t q ms = Some r \<and> length r = length ms"
proof (cases "t = CHR ''f''")
  case True
  then show ?thesis by (simp add: cdof_fn_def)
next
  case False
  with assms(1) have it: "int_typ t = Some (qd_width lib t)" and pos: "0 < qd_width lib t"
    by (simp_all add: type_supported_def)
  have dv: "length ms div qd_width lib t = c" using assms(3) pos by simp
  show ?thesis
    using False it pos assms(2,3) dv
    by (simp add: cdof_fn_def Let_def cdof_loop_length column_stack_length)
qed

lemma reshape_rows_length: "length (reshape_rows xs rows cols) = rows"
  by (simp add: reshape_rows_def)

lemma reshape_rows_nth:
  assumes "length xs = rows * cols" "l < rows"
  shows "reshape_rows xs rows cols ! l = slice xs (l * cols) cols"
    and "length (reshape_rows xs rows cols ! l) = cols"
proof -
  have "Suc l * cols \<le> rows * cols" using assms(2) by (intro mult_le_mono1) simp
  then have "l * cols + cols \<le> length xs" using assms(1) by simp
  then show "length (reshape_rows xs rows cols ! l) = cols"
    using assms(2) by (simp add: reshape_rows_def length_slice)
  show "reshape_rows xs rows cols ! l = slice xs (l * cols) cols"
    using assms(2) by (simp add: reshape_rows_def)
qed

lemma free_rows_length:
  assumes "length cdof = c * 6" "length cdof_qd = c * 6"
  shows "length (concat (map (\<lambda>row. replicate 3 (0::Motion) @ drop 3 row)
           (map2 (\<lambda>c row. map (motion_cross c) row)
              (map (\<lambda>row. sum_list (take 3 row)) (reshape_rows cdof_qd c 6))
              (reshape_rows cdof c 6)))) = c * 6"
proof -
  let ?rows = "map2 (\<lambda>c row. map (motion_cross c) row)
              (map (\<lambda>row. sum_list (take 3 row)) (reshape_rows cdof_qd c 6))
              (reshape_rows cdof c 6)"
  have len: "length ?rows = c" by (simp add: reshape_rows_length)
  have "\<forall>row\<in>set ?rows. length (replicate 3 (0::Motion) @ drop 3 row) = 6"
  proof
    fix row assume "row \<in> set ?rows"
    then obtain l where l: "l < c" "row = ?rows ! l"
      using len by (metis in_set_conv_nth)
    then have "length row = length (reshape_rows cdof c 6 ! l)"
      by (simp add: reshape_rows_length)
    then have "length row = 6" using reshape_rows_nth(2)[OF assms(1) l(1)] by simp
    then show "length (replicate 3 (0::Motion) @ drop 3 row) = 6" by simp
  qed
  then have "sum_list (map (\<lambda>row. length (replicate 3 (0::Motion) @ drop 3 row)) ?rows)
             = length ?rows * 6"
    by (rule sum_list_const_width)
  then show ?thesis by (simp only: length_concat map_map comp_def len)
qed

lemma cdofd_fn_returns:
  assumes "type_supported lib t" "length cdof = c * qd_width lib t"
    and "length cdof_qd = c * qd_width lib t" "length cd = c"
  shows "\<exists>r. cdofd_fn t cd cdof cdof_qd = Some r \<and> length r = length cdof"
proof (cases "t = CHR ''f''")
  case True
  with assms(1) have w: "qd_width lib t = 6" by (simp add: type_supported_def)
  have "length (concat (map (\<lambda>row. replicate 3 (0::Motion) @ drop 3 row)
           (map2 (\<lambda>c row. map (motion_cross c) row)
              (map (\<lambda>row. sum_list (take 3 row)) (reshape_rows cdof_qd c 6))
              (reshape_rows cdof c 6)))) = c * 6"
    using assms(2,3) w by (intro free_rows_length) simp_all
  then show ?thesis using True assms(2,3) w by (simp add: cdofd_fn_def Let_def)
next
  case False
  with assms(1) have it: "int_typ t = Some (qd_width lib t)" and pos: "0 < qd_width lib t"
    by (simp_all add: type_supported_def)
  show ?thesis
    using False it pos assms(2,3,4)
    by (simp add: cdofd_fn_def Let_def cds_loop_length column_stack_length)
qed


subsection \<open>The tree\<close>

lemma tree_parent:
  assumes "tree_ordered sys" "0 < i" "i < num_links sys"
  shows "0 \<le> link_parents sys ! i" and "nat (link_parents sys ! i) < i"
proof -
  have "i \<in> set [1..<num_links sys]" using assms(2,3) by simp
  then have "0 \<le> link_parents sys ! i \<and> link_parents sys ! i < int i"
    using assms(1) unfolding tree_ordered_def list_all_iff by blast
  then show "0 \<le> link_parents sys ! i" and "nat (link_parents sys ! i) < i" by linarith+
qed

lemma depth_root: "tree_ordered sys \<Longrightarrow> depth sys 0 = 0"
  by (simp add: depth_def)

lemma depth_child:
  assumes "tree_ordered sys" "0 < i" "i < num_links sys"
  shows "depth sys i = Suc (depth sys (nat (link_parents sys ! i)))"
  using tree_parent[OF assms] by (simp add: depth_def)

lemma depth_zero_iff:
  assumes "tree_ordered sys" "i < num_links sys"
  shows "depth sys i = 0 \<longleftrightarrow> i = 0"
  using depth_root[OF assms(1)] depth_child[OF assms(1) _ assms(2)] by (cases "i = 0") auto

lemma level_mem: "i \<in> set (level sys k) \<longleftrightarrow> i < num_links sys \<and> depth sys i = k"
  by (auto simp: level_def)

lemma level_zero:
  assumes "tree_ordered sys"
  shows "level sys 0 = [0]"
proof -
  have n: "0 < num_links sys" using assms by (simp add: tree_ordered_def)
  have "filter (\<lambda>i. depth sys i = 0) [0..<num_links sys]
        = filter (\<lambda>i. i = 0) [0..<num_links sys]"
    by (rule filter_cong[OF refl]) (simp add: depth_zero_iff[OF assms])
  also have "\<dots> = [0]"
  proof -
    have "[0..<num_links sys] = 0 # [1..<num_links sys]" using n by (simp add: upt_conv_Cons)
    moreover have "filter (\<lambda>i. i = 0) [1..<num_links sys] = []"
      by (simp add: filter_empty_conv)
    ultimately show ?thesis by simp
  qed
  finally show ?thesis by (simp add: level_def)
qed

lemma level_parent:
  assumes "tree_ordered sys" "i \<in> set (level sys (Suc k))"
  shows "nat (link_parents sys ! i) \<in> set (level sys k)"
    and "0 \<le> link_parents sys ! i" and "0 < i"
proof -
  from assms(2) have i: "i < num_links sys" "depth sys i = Suc k" by (simp_all add: level_mem)
  then show pos: "0 < i" using depth_root[OF assms(1)] by (cases "i = 0") auto
  from tree_parent[OF assms(1) pos i(1)] show "0 \<le> link_parents sys ! i" by simp
  from tree_parent[OF assms(1) pos i(1)] depth_child[OF assms(1) pos i(1)] i
  show "nat (link_parents sys ! i) \<in> set (level sys k)" by (simp add: level_mem)
qed

lemma level_rank_nth:
  assumes "i < num_links sys"
  shows "level sys (depth sys i) ! level_rank sys i = i"
    and "level_rank sys i < length (level sys (depth sys i))"
  unfolding level_def level_rank_def
  using filter_upt_rank[of i "num_links sys" "\<lambda>j. depth sys j = depth sys i"] assms
  by simp_all

lemma level_rank_of_nth:
  assumes "r < length (level sys k)"
  shows "level_rank sys (level sys k ! r) = r" and "level sys k ! r < num_links sys"
    and "depth sys (level sys k ! r) = k"
proof -
  let ?i = "level sys k ! r"
  have mem: "?i \<in> set (level sys k)" using assms by simp
  then show lt: "?i < num_links sys" and d: "depth sys ?i = k" by (simp_all add: level_mem)
  have dist: "distinct (level sys k)" by (simp add: level_def)
  have "level sys k ! level_rank sys ?i = ?i" and "level_rank sys ?i < length (level sys k)"
    using level_rank_nth[OF lt] d by simp_all
  then show "level_rank sys ?i = r"
    using dist assms by (simp add: nth_eq_iff_index_eq)
qed

subsection \<open>The stages of the forward scan\<close>

lemma index_sum_length: "length (index_sum base idx vs) = length base"
  by (induction base idx vs rule: index_sum.induct) simp_all

lemma take_idx_length: "xs \<noteq> [] \<or> idx = [] \<Longrightarrow> length (take_idx xs idx) = length idx"
  by (auto simp: take_idx_def)

lemma take_idx_nth:
  "k < length idx \<Longrightarrow> 0 \<le> idx ! k \<Longrightarrow> nat (idx ! k) < length xs
   \<Longrightarrow> take_idx xs idx ! k = xs ! nat (idx ! k)"
  by (auto simp: take_idx_def)

lemma scan_tree_stage_length:
  assumes tr: "tree_ordered sys"
    and some: "\<forall>y k. length (f (Some y) k) = length y"
    and none: "length (f None 0) = 1"
  shows "length (scan_tree_stage sys f k) = length (level sys k)"
proof (induction k)
  case 0
  then show ?case using none by (simp add: level_zero[OF tr])
next
  case (Suc k)
  let ?y = "scan_tree_stage sys f k"
  let ?idx = "map (\<lambda>i. int (level_rank sys (nat (link_parents sys ! i)))) (level sys (Suc k))"
  have "?y \<noteq> [] \<or> ?idx = []"
  proof (cases "level sys (Suc k)")
    case Nil
    then show ?thesis by simp
  next
    case (Cons i rest)
    then have "i \<in> set (level sys (Suc k))" by simp
    from level_parent(1)[OF tr this] have "level sys k \<noteq> []" by auto
    then show ?thesis using Suc.IH by auto
  qed
  then have "length (take_idx ?y ?idx) = length (level sys (Suc k))"
    by (simp add: take_idx_length)
  then show ?case by (simp add: Let_def some)
qed

lemma singleton_slices:
  assumes "\<forall>i<n. r i < length (g i)"
  shows "concat (map (\<lambda>i. slice (g i) (r i) 1) [0..<n]) = map (\<lambda>i. g i ! r i) [0..<n]"
  using assms
proof (induction n)
  case 0
  then show ?case by simp
next
  case (Suc n)
  then have "r n < length (g n)" by simp
  then have "take 1 (drop (r n) (g n)) = [g n ! r n]"
    by (simp add: take_Suc_conv_app_nth Cons_nth_drop_Suc[symmetric])
  then have "slice (g n) (r n) 1 = [g n ! r n]" by (simp add: slice_def)
  with Suc show ?case by simp
qed

lemma scan_tree_eq:
  assumes tr: "tree_ordered sys"
    and some: "\<forall>y k. length (f (Some y) k) = length y"
    and none: "length (f None 0) = 1"
  shows "scan_tree sys f
         = map (\<lambda>i. scan_tree_stage sys f (depth sys i) ! level_rank sys i) [0..<num_links sys]"
  unfolding scan_tree_def
proof (rule singleton_slices, intro allI impI)
  fix i assume "i < num_links sys"
  from level_rank_nth(2)[OF this]
  show "level_rank sys i < length (scan_tree_stage sys f (depth sys i))"
    by (simp add: scan_tree_stage_length[OF tr some none])
qed

lemma scan_tree_length:
  assumes "tree_ordered sys" "\<forall>y k. length (f (Some y) k) = length y" "length (f None 0) = 1"
  shows "length (scan_tree sys f) = num_links sys"
  by (simp add: scan_tree_eq[OF assms])

lemma scan_tree_nth:
  assumes "tree_ordered sys" "\<forall>y k. length (f (Some y) k) = length y" "length (f None 0) = 1"
    and "i < num_links sys"
  shows "scan_tree sys f ! i = scan_tree_stage sys f (depth sys i) ! level_rank sys i"
  using assms(4) by (simp add: scan_tree_eq[OF assms(1,2,3)])


subsection \<open>\<open>transform_com\<close> returns\<close>

lemma scan_link_types_opt_returns:
  assumes "\<forall>t\<in>set (link_types sys).
             \<exists>r. f t = Some r \<and> length r = length (links_of_type sys t) * qd_width lib t"
  shows "scan_link_types_opt lib sys f = Some (scan_link_types lib sys (\<lambda>t. the (f t)))"
    and "group_sized lib sys (\<lambda>t. the (f t))"
    and "length (scan_link_types lib sys (\<lambda>t. the (f t))) = qd_size lib sys"
proof -
  have "\<not> list_ex (\<lambda>t. f t = None) (link_types sys)"
    using assms by (auto simp: list_ex_iff)
  then show "scan_link_types_opt lib sys f = Some (scan_link_types lib sys (\<lambda>t. the (f t)))"
    by (simp add: scan_link_types_opt_def)
  show gs: "group_sized lib sys (\<lambda>t. the (f t))"
    using assms by (fastforce simp: group_sized_def list_all_iff)
  show "length (scan_link_types lib sys (\<lambda>t. the (f t))) = qd_size lib sys"
    by (rule scan_link_types_length[OF gs])
qed

lemma pidx_of_length:
  "length (link_parents sys) = num_links sys \<Longrightarrow> length (pidx_of sys) = num_links sys"
  by (simp add: pidx_of_def num_links_def)

lemma joint_frame_length:
  assumes "length (link_parents sys) = num_links sys" "length (link sys) = num_links sys"
  shows "length (joint_frame lib sys x) = num_links sys"
  using assms by (simp add: joint_frame_def Let_def take_idx_length pidx_of_length)

lemma cd_fn_lengths:
  "\<forall>y k. length (cd_fn (Some y) (a k) (b k)) = length y" "length (cd_fn None (a 0) (b 0)) = 1"
  by (simp_all add: cd_fn_def index_sum_length)

lemma cd_of_length:
  assumes "tree_ordered sys"
  shows "length (cd_of lib sys cdof_qd) = num_links sys"
  unfolding cd_of_def
  by (rule scan_tree_length[OF assms cd_fn_lengths])

lemma cdof_of_returns:
  assumes ws: "well_shaped lib sys q qd x"
  shows "\<exists>cdof. cdof_of lib sys q x = Some cdof \<and> length cdof = qd_size lib sys"
proof -
  let ?ms = "map motion (dof sys)"
  let ?f = "\<lambda>t. cdof_fn lib t (take_q lib sys t q) (take_d lib sys t ?ms)"
  have tr: "tree_ordered sys" and ll: "length (link sys) = num_links sys"
    and lq: "q_size lib sys \<le> length q" and ld: "qd_size lib sys \<le> length ?ms"
    and ts: "\<forall>t\<in>set (link_types sys). type_supported lib t"
    using ws by (simp_all add: well_shaped_def list_all_iff)
  have "\<forall>t\<in>set (link_types sys).
          \<exists>r. ?f t = Some r \<and> length r = length (links_of_type sys t) * qd_width lib t"
  proof
    fix t assume t: "t \<in> set (link_types sys)"
    with ts have sup: "type_supported lib t" by blast
    have lm: "length (take_d lib sys t ?ms) = length (links_of_type sys t) * qd_width lib t"
      by (rule take_d_length[OF ld])
    have lqq: "t \<noteq> CHR ''f'' \<Longrightarrow> length (take_q lib sys t q) = length (take_d lib sys t ?ms)"
      using sup by (simp add: take_q_length[OF lq] lm type_supported_def)
    from cdof_fn_returns[OF sup lqq lm] lm
    show "\<exists>r. ?f t = Some r \<and> length r = length (links_of_type sys t) * qd_width lib t"
      by auto
  qed
  from scan_link_types_opt_returns[OF this]
  have sc: "scan_link_types_opt lib sys ?f = Some (scan_link_types lib sys (\<lambda>t. the (?f t)))"
    and len: "length (scan_link_types lib sys (\<lambda>t. the (?f t))) = qd_size lib sys"
    by simp_all
  have lp: "length (link_parents sys) = num_links sys" and n: "0 < num_links sys"
    using tr by (simp_all add: tree_ordered_def)
  have "joint_frame lib sys x \<noteq> []"
    using joint_frame_length[OF lp ll, of lib x] n by auto
  then have jd: "length (take_idx (joint_frame lib sys x) (map int (dof_link lib sys)))
                 = qd_size lib sys"
    by (simp add: take_idx_length dof_link_length)
  show ?thesis
    using sc len jd by (simp add: cdof_of_def Let_def)
qed

lemma transform_com_returns:
  assumes ws: "well_shaped lib sys q qd x"
  shows "\<exists>cdof cdofd. transform_com lib sys q qd x
           = Some (com_of lib sys x, cinr_of lib sys x,
                   cd_of lib sys (map2 motion_scale cdof qd), cdof, cdofd)
         \<and> cdof_of lib sys q x = Some cdof \<and> length cdof = qd_size lib sys
         \<and> scan_link_types_opt lib sys
              (\<lambda>t. cdofd_fn t
                 (take_l sys t (take_idx (cd_of lib sys (map2 motion_scale cdof qd) @ [0])
                                  (pidx_of sys)))
                 (take_d lib sys t cdof) (take_d lib sys t (map2 motion_scale cdof qd)))
            = Some cdofd
         \<and> length cdofd = qd_size lib sys"
proof -
  from cdof_of_returns[OF ws] obtain cdof where
    cdof: "cdof_of lib sys q x = Some cdof" "length cdof = qd_size lib sys" by blast
  let ?cq = "map2 motion_scale cdof qd"
  let ?cd = "cd_of lib sys ?cq"
  let ?cdp = "take_idx (?cd @ [0]) (pidx_of sys)"
  let ?f = "\<lambda>t. cdofd_fn t (take_l sys t ?cdp) (take_d lib sys t cdof) (take_d lib sys t ?cq)"
  have tr: "tree_ordered sys" and lqd: "length qd = qd_size lib sys"
    and ts: "\<forall>t\<in>set (link_types sys). type_supported lib t"
    using ws by (simp_all add: well_shaped_def list_all_iff)
  have lp: "length (link_parents sys) = num_links sys"
    using tr by (simp add: tree_ordered_def)
  have lcq: "qd_size lib sys \<le> length ?cq" using cdof(2) lqd by simp
  have lcdof: "qd_size lib sys \<le> length cdof" using cdof(2) by simp
  have lcdp: "num_links sys \<le> length ?cdp"
    by (simp add: take_idx_length pidx_of_length[OF lp])
  have "\<forall>t\<in>set (link_types sys).
          \<exists>r. ?f t = Some r \<and> length r = length (links_of_type sys t) * qd_width lib t"
  proof
    fix t assume t: "t \<in> set (link_types sys)"
    with ts have sup: "type_supported lib t" by blast
    from cdofd_fn_returns[OF sup take_d_length[OF lcdof] take_d_length[OF lcq]
        take_l_length[OF lcdp]]
    show "\<exists>r. ?f t = Some r \<and> length r = length (links_of_type sys t) * qd_width lib t"
      by (simp add: take_d_length[OF lcdof])
  qed
  from scan_link_types_opt_returns[OF this]
  have sc: "scan_link_types_opt lib sys ?f = Some (scan_link_types lib sys (\<lambda>t. the (?f t)))"
    and len: "length (scan_link_types lib sys (\<lambda>t. the (?f t))) = qd_size lib sys"
    by simp_all
  have "transform_com lib sys q qd x
        = Some (com_of lib sys x, cinr_of lib sys x, ?cd, cdof,
                scan_link_types lib sys (\<lambda>t. the (?f t)))"
    using cdof(1) sc by (simp add: transform_com_def Let_def)
  then show ?thesis using cdof sc len by blast
qed

section \<open>The centre of mass\<close>

lemma sum_list_nth_sum: "sum_list xs = (\<Sum>i<length xs. xs ! i)"
  by (simp add: sum_list_sum_nth atLeast0LessThan)

lemma xi_of_nth:
  assumes "i < length x" "i < length (link sys)"
  shows "xi_of lib sys x ! i
         = transform_do lib (x ! i) (transform (link_inertia (link sys ! i)))"
  using assms by (simp add: xi_of_def)

lemma xi_of_length: "length (xi_of lib sys x) = min (length x) (length (link sys))"
  by (simp add: xi_of_def)

lemma com_of_eq:
  assumes "length x = num_links sys" "length (link sys) = num_links sys"
  shows "com_of lib sys x
         = vdiv (\<Sum>i<num_links sys.
                   vscale (mass (link_inertia (link sys ! i)))
                     (pos (transform_do lib (x ! i) (transform (link_inertia (link sys ! i))))))
                (\<Sum>i<num_links sys. mass (link_inertia (link sys ! i)))"
proof -
  let ?ms = "map (\<lambda>l. mass (link_inertia l)) (link sys)"
  let ?ps = "map pos (xi_of lib sys x)"
  have l: "length (map2 vscale ?ms ?ps) = num_links sys"
    using assms by (simp add: xi_of_length)
  have "sum_list (map2 vscale ?ms ?ps)
        = (\<Sum>i<num_links sys. map2 vscale ?ms ?ps ! i)"
    using sum_list_nth_sum[of "map2 vscale ?ms ?ps"] l by simp
  also have "\<dots> = (\<Sum>i<num_links sys.
                   vscale (mass (link_inertia (link sys ! i)))
                     (pos (transform_do lib (x ! i) (transform (link_inertia (link sys ! i))))))"
    using assms by (intro sum.cong refl) (simp add: xi_of_length xi_of_nth)
  finally have num: "sum_list (map2 vscale ?ms ?ps)
        = (\<Sum>i<num_links sys.
                   vscale (mass (link_inertia (link sys ! i)))
                     (pos (transform_do lib (x ! i) (transform (link_inertia (link sys ! i))))))" .
  have "sum_list ?ms = (\<Sum>i<num_links sys. ?ms ! i)"
    using sum_list_nth_sum[of ?ms] assms(2) by simp
  also have "\<dots> = (\<Sum>i<num_links sys. mass (link_inertia (link sys ! i)))"
    using assms(2) by (intro sum.cong refl) simp
  finally have den: "sum_list ?ms = (\<Sum>i<num_links sys. mass (link_inertia (link sys ! i)))" .
  show ?thesis
    by (simp only: com_of_def Let_def num den)
qed

text \<open>
  C1. On every well-shaped input \<open>transform_com\<close> returns, and the \<open>com\<close> it returns is the
  mass-weighted average of the world positions of the links' centres of mass,
  \<open>(\<Sum>i. mass\<^sub>i * worldpos\<^sub>i) / (\<Sum>i. mass\<^sub>i)\<close>, where \<open>worldpos\<^sub>i\<close> is the position of the
  world pose \<open>x\<^sub>i\<close> of link \<open>i\<close> composed with the pose of the link's inertia in the link
  frame. The pose \<open>x\<close> is arbitrary.
\<close>

theorem com_mass_weighted_average:
  assumes "well_shaped lib sys q qd x"
  shows "\<exists>cinr cd cdof cdofd.
           transform_com lib sys q qd x
           = Some (vdiv (\<Sum>i<num_links sys.
                           vscale (mass (link_inertia (link sys ! i)))
                             (pos (transform_do lib (x ! i)
                                     (transform (link_inertia (link sys ! i))))))
                        (\<Sum>i<num_links sys. mass (link_inertia (link sys ! i))),
                   cinr, cd, cdof, cdofd)"
proof -
  have l: "length x = num_links sys" "length (link sys) = num_links sys"
    using assms by (simp_all add: well_shaped_def)
  from transform_com_returns[OF assms] obtain cdof cdofd where
    "transform_com lib sys q qd x
     = Some (com_of lib sys x, cinr_of lib sys x,
             cd_of lib sys (map2 motion_scale cdof qd), cdof, cdofd)" by blast
  then show ?thesis unfolding com_of_eq[OF l, of lib] by blast
qed

lemma well_shaped_chain12:
  "well_shaped std_lib chain12 [0, 0, 0] [1, 2, 3] chain12_x"
  by (simp add: well_shaped_def tree_ordered_def type_supported_def lib_simps sys_simps scan_simps)

lemma well_shaped_free1:
  "well_shaped std_lib free1 [0, 0, 0, 1, 0, 0, 0, 0] [1, 2, 3, 4, 5, 6, 7] free1_x"
  by (simp add: well_shaped_def tree_ordered_def type_supported_def lib_simps sys_simps scan_simps)

theorem com_mass_weighted_average_witness:
  "well_shaped std_lib chain12 [0, 0, 0] [1, 2, 3] chain12_x
   \<and> (\<exists>cinr cd cdof cdofd.
         transform_com std_lib chain12 [0, 0, 0] [1, 2, 3] chain12_x
         = Some (Vec3 (7 / 4) (3 / 4) 0, cinr, cd, cdof, cdofd))"
proof -
  have v: "vdiv (\<Sum>i<num_links chain12.
                   vscale (mass (link_inertia (link chain12 ! i)))
                     (pos (transform_do std_lib (chain12_x ! i)
                             (transform (link_inertia (link chain12 ! i))))))
                (\<Sum>i<num_links chain12. mass (link_inertia (link chain12 ! i)))
           = Vec3 (7 / 4) (3 / 4) 0"
    by (simp add: lib_simps sys_simps num_links_def lessThan_Suc)
  show ?thesis
    using com_mass_weighted_average[OF well_shaped_chain12] well_shaped_chain12
    unfolding v by blast
qed


section \<open>The joint frames\<close>

lemma pidx_of_nth:
  assumes "length (link_parents sys) = num_links sys" "i < num_links sys"
  shows "pidx_of sys ! i
         = (if link_types sys ! i = CHR ''f'' then int i else link_parents sys ! i)"
  using assms by (simp add: pidx_of_def num_links_def nth_enumerate_eq)

lemma take_pad_nth:
  assumes "i < length idx" "- 1 \<le> idx ! i" "idx ! i < int (length xs)"
  shows "take_idx (xs @ [z]) idx ! i = (if idx ! i = - 1 then z else xs ! nat (idx ! i))"
proof (cases "idx ! i = - 1")
  case True
  have "(- 1) mod (1 + int (length xs)) = int (length xs)"
    by (simp add: zmod_minus1)
  then show ?thesis using assms(1) True by (simp add: take_idx_def)
next
  case False
  with assms(2) have nn: "0 \<le> idx ! i" by simp
  then have "idx ! i mod (1 + int (length xs)) = idx ! i"
    using assms(3) by simp
  moreover have "nat (idx ! i) < length xs" using assms(3) nn by linarith
  ultimately show ?thesis using assms(1) False by (simp add: take_idx_def nth_append)
qed

lemma parents_range:
  assumes "tree_ordered sys" "i < num_links sys"
  shows "- 1 \<le> link_parents sys ! i" and "link_parents sys ! i < int (num_links sys)"
    and "link_parents sys ! i < int i"
proof -
  have "- 1 \<le> link_parents sys ! i \<and> link_parents sys ! i < int i"
  proof (cases "i = 0")
    case True
    then show ?thesis using assms(1) by (simp add: tree_ordered_def)
  next
    case False
    then have "0 < i" by simp
    from tree_parent[OF assms(1) this assms(2)] show ?thesis by simp
  qed
  then show "- 1 \<le> link_parents sys ! i" and "link_parents sys ! i < int (num_links sys)"
    and "link_parents sys ! i < int i"
    using assms(2) by simp_all
qed

text \<open>
  C10. The joint frame \<open>j\<close> of link \<open>i\<close> in \<open>transform_com\<close> is an anchor pose composed with
  the link's transform and then with its joint offset. The anchor is the world pose of the
  parent link, the zero (identity) transform when the link is the root and has no parent;
  for a link of type \<open>f\<close> (free) the anchor is the link's own world pose instead.
\<close>

theorem joint_frame_anchor:
  assumes "tree_ordered sys" and "length (link sys) = num_links sys"
    and "length x = num_links sys" and "i < num_links sys"
  shows "joint_frame lib sys x ! i
         = transform_do lib
             (transform_do lib
                (if link_types sys ! i = CHR ''f'' then x ! i
                 else if link_parents sys ! i = - 1 then Transform_zero
                 else x ! nat (link_parents sys ! i))
                (link_transform (link sys ! i)))
             (link_joint (link sys ! i))"
proof -
  have lp: "length (link_parents sys) = num_links sys"
    using assms(1) by (simp add: tree_ordered_def)
  have pl: "length (pidx_of sys) = num_links sys" by (rule pidx_of_length[OF lp])
  have pn: "pidx_of sys ! i
            = (if link_types sys ! i = CHR ''f'' then int i else link_parents sys ! i)"
    by (rule pidx_of_nth[OF lp assms(4)])
  have lo: "- 1 \<le> pidx_of sys ! i" and hi: "pidx_of sys ! i < int (length x)"
    using parents_range[OF assms(1,4)] assms(3,4) by (simp_all add: pn)
  have il: "i < length (pidx_of sys)" using pl assms(4) by simp
  have anchor: "take_idx (x @ [Transform_zero]) (pidx_of sys) ! i
        = (if link_types sys ! i = CHR ''f'' then x ! i
           else if link_parents sys ! i = - 1 then Transform_zero
           else x ! nat (link_parents sys ! i))"
    using take_pad_nth[OF il lo hi, of Transform_zero] by (simp add: pn)
  have "length (take_idx (x @ [Transform_zero]) (pidx_of sys)) = num_links sys"
    by (simp add: take_idx_length pl)
  then show ?thesis
    using assms(2,4) anchor by (simp add: joint_frame_def Let_def)
qed

theorem joint_frame_anchor_witness:
  "tree_ordered free1 \<and> length (link free1) = num_links free1
   \<and> length free1_x = num_links free1 \<and> (0::nat) < num_links free1
   \<and> (1::nat) < num_links free1
   \<and> joint_frame std_lib free1 free1_x ! 0 = \<lparr>pos = Vec3 1 2 3, rot = Quat 0 1 0 0\<rparr>
   \<and> joint_frame std_lib free1 free1_x ! 1 = \<lparr>pos = Vec3 1 2 2, rot = Quat 0 1 0 0\<rparr>
   \<and> joint_frame std_lib chain12 chain12_x ! 0 = Transform_zero"
proof -
  have t: "tree_ordered free1" "length (link free1) = num_links free1"
    "length free1_x = num_links free1" "(0::nat) < num_links free1" "(1::nat) < num_links free1"
    by (simp_all add: tree_ordered_def sys_simps num_links_def)
  have c: "tree_ordered chain12" "length (link chain12) = num_links chain12"
    "length chain12_x = num_links chain12" "(0::nat) < num_links chain12"
    by (simp_all add: tree_ordered_def sys_simps num_links_def)
  have j0: "joint_frame std_lib free1 free1_x ! 0 = \<lparr>pos = Vec3 1 2 3, rot = Quat 0 1 0 0\<rparr>"
    by (subst joint_frame_anchor[OF t(1,2,3,4)]) (simp add: lib_simps sys_simps)
  have j1: "joint_frame std_lib free1 free1_x ! 1 = \<lparr>pos = Vec3 1 2 2, rot = Quat 0 1 0 0\<rparr>"
    by (subst joint_frame_anchor[OF t(1,2,3,5)]) (simp add: lib_simps sys_simps)
  have j2: "joint_frame std_lib chain12 chain12_x ! 0 = Transform_zero"
    by (subst joint_frame_anchor[OF c]) (simp add: lib_simps sys_simps)
  show ?thesis using t j0 j1 j2 by blast
qed

section \<open>The inertia in the centre-of-mass frame\<close>

lemma replace_pos: "(t::Transform)\<lparr>pos := p\<rparr> = \<lparr>pos = p, rot = rot t\<rparr>"
  by (cases t) simp

lemma cinr_of_nth:
  assumes "length x = num_links sys" "length (link sys) = num_links sys" "i < num_links sys"
  shows "cinr_of lib sys x ! i
         = transform_do_inertia lib
             ((xi_of lib sys x ! i)\<lparr>pos := pos (xi_of lib sys x ! i) - com_of lib sys x\<rparr>)
             (link_inertia (link sys ! i))"
  using assms by (simp add: cinr_of_def cinr_frame_def xi_of_length)

lemma transform_com_parts:
  assumes "well_shaped lib sys q qd x"
  shows "fst (the (transform_com lib sys q qd x)) = com_of lib sys x"
    and "fst (snd (the (transform_com lib sys q qd x))) = cinr_of lib sys x"
proof -
  from transform_com_returns[OF assms] obtain cdof cdofd where
    r: "transform_com lib sys q qd x
     = Some (com_of lib sys x, cinr_of lib sys x,
             cd_of lib sys (map2 motion_scale cdof qd), cdof, cdofd)" by blast
  show "fst (the (transform_com lib sys q qd x)) = com_of lib sys x"
    and "fst (snd (the (transform_com lib sys q qd x))) = cinr_of lib sys x"
    by (simp_all add: r)
qed

text \<open>
  C3, as the code has it. The \<open>cinr\<close> of link \<open>i\<close> is the link's inertia under the pose
  whose position is the world position of the link's centre of mass minus \<open>com\<close> and whose
  rotation is the world rotation of the link's inertia frame (the rotation of \<open>x\<^sub>i\<close> composed
  with the inertia's own pose): \<open>xi.replace(pos=xi.pos - com)\<close> replaces the position only,
  and the whole pose, rotation included, is applied to the inertia.
\<close>

theorem cinr_pose_applied:
  assumes "well_shaped lib sys q qd x" and "i < num_links sys"
  shows "\<exists>com cinr cd cdof cdofd.
           transform_com lib sys q qd x = Some (com, cinr, cd, cdof, cdofd)
           \<and> cinr ! i
             = transform_do_inertia lib
                 \<lparr>pos = pos (transform_do lib (x ! i) (transform (link_inertia (link sys ! i))))
                        - com,
                  rot = rot (transform_do lib (x ! i) (transform (link_inertia (link sys ! i))))\<rparr>
                 (link_inertia (link sys ! i))"
proof -
  have l: "length x = num_links sys" "length (link sys) = num_links sys"
    using assms(1) by (simp_all add: well_shaped_def)
  have "cinr_of lib sys x ! i
        = transform_do_inertia lib
            \<lparr>pos = pos (transform_do lib (x ! i) (transform (link_inertia (link sys ! i))))
                   - com_of lib sys x,
             rot = rot (transform_do lib (x ! i) (transform (link_inertia (link sys ! i))))\<rparr>
            (link_inertia (link sys ! i))"
    using cinr_of_nth[OF l assms(2), of lib] xi_of_nth[of i x sys lib] l assms(2)
    by (simp add: replace_pos)
  moreover from transform_com_returns[OF assms(1)] obtain cdof cdofd where
    "transform_com lib sys q qd x
     = Some (com_of lib sys x, cinr_of lib sys x,
             cd_of lib sys (map2 motion_scale cdof qd), cdof, cdofd)" by blast
  ultimately show ?thesis by blast
qed


theorem cinr_pose_applied_witness:
  "well_shaped std_lib tilted [0] [0] tilted_x \<and> (0::nat) < num_links tilted
   \<and> (\<exists>com cinr cd cdof cdofd.
         transform_com std_lib tilted [0] [0] tilted_x = Some (com, cinr, cd, cdof, cdofd)
         \<and> cinr ! 0
           = transform_do_inertia std_lib \<lparr>pos = Vec3 0 0 0 - com, rot = Quat (3 / 5) (4 / 5) 0 0\<rparr>
               (link_inertia (link tilted ! 0)))"
proof -
  have ws: "well_shaped std_lib tilted [0] [0] tilted_x"
    by (simp add: well_shaped_def tree_ordered_def type_supported_def lib_simps tilted_def
        tilted_x_def scan_simps)
  have n: "(0::nat) < num_links tilted" by (simp add: tilted_def num_links_def)
  have p: "transform_do std_lib (tilted_x ! 0) (transform (link_inertia (link tilted ! 0)))
           = \<lparr>pos = Vec3 0 0 0, rot = Quat (3 / 5) (4 / 5) 0 0\<rparr>"
    by (simp add: lib_simps tilted_def tilted_x_def)
  show ?thesis
    using cinr_pose_applied[OF ws n] ws n unfolding p by simp
qed

text \<open>
  C3 as stated fails. A single link whose centre of mass is the centre of mass of the
  mechanism needs no translation at all, so a re-expression that translates and does not
  rotate would return the link's own inertia; but the link is turned about \<open>x\<close> in the
  world, and the pose applied to its inertia carries that rotation: with the textbook
  application of a pose to an inertia the tensor of \<open>cinr\<close> is the rotated tensor, not the
  link's own.
\<close>

theorem cinr_pure_translation_counterexample:
  "rot (cinr_frame std_lib tilted tilted_x ! 0) = Quat (3 / 5) (4 / 5) 0 0
   \<and> pos (cinr_frame std_lib tilted tilted_x ! 0) = Vec3 0 0 0
   \<and> fst (snd (the (transform_com std_lib tilted [0] [0] tilted_x))) ! 0
       \<noteq> transform_do_inertia std_lib
           (Transform_create_pos
              (pos (xi_of std_lib tilted tilted_x ! 0)
               - fst (the (transform_com std_lib tilted [0] [0] tilted_x))))
           (link_inertia (link tilted ! 0))
   \<and> inertia_i (fst (snd (the (transform_com std_lib tilted [0] [0] tilted_x))) ! 0)
       = (Vec3 1 0 0, Vec3 0 (1826 / 625) (168 / 625), Vec3 0 (168 / 625) (1299 / 625))
   \<and> inertia_i (link_inertia (link tilted ! 0)) = (Vec3 1 0 0, Vec3 0 2 0, Vec3 0 0 3)"
proof -
  have ws: "well_shaped std_lib tilted [0] [0] tilted_x"
    by (simp add: well_shaped_def tree_ordered_def type_supported_def lib_simps tilted_def
        tilted_x_def scan_simps)
  have com: "com_of std_lib tilted tilted_x = Vec3 0 0 0"
    by (simp add: com_of_def xi_of_def lib_simps tilted_def tilted_x_def Let_def)
  have xi: "xi_of std_lib tilted tilted_x = [\<lparr>pos = Vec3 0 0 0, rot = Quat (3 / 5) (4 / 5) 0 0\<rparr>]"
    by (simp add: xi_of_def lib_simps tilted_def tilted_x_def)
  have fr: "cinr_frame std_lib tilted tilted_x = [\<lparr>pos = Vec3 0 0 0, rot = Quat (3 / 5) (4 / 5) 0 0\<rparr>]"
    by (simp add: cinr_frame_def xi com minus_vec3_def)
  have li: "map link_inertia (link tilted)
            = [\<lparr>transform = Transform_zero,
                 inertia_i = (Vec3 1 0 0, Vec3 0 2 0, Vec3 0 0 3), mass = 1\<rparr>]"
    by (simp add: tilted_def)
  have ci: "cinr_of std_lib tilted tilted_x
            = [\<lparr>transform = \<lparr>pos = Vec3 0 0 0, rot = Quat (3 / 5) (4 / 5) 0 0\<rparr>,
                 inertia_i = (Vec3 1 0 0, Vec3 0 (1826 / 625) (168 / 625),
                              Vec3 0 (168 / 625) (1299 / 625)),
                 mass = 1\<rparr>]"
    unfolding cinr_of_def fr li by (simp add: lib_simps Let_def)
  have tr: "transform_do_inertia std_lib (Transform_create_pos 0)
              \<lparr>transform = Transform_zero,
                 inertia_i = (Vec3 1 0 0, Vec3 0 2 0, Vec3 0 0 3), mass = 1\<rparr>
            = \<lparr>transform = \<lparr>pos = Vec3 0 0 0, rot = Quat 1 0 0 0\<rparr>,
                 inertia_i = (Vec3 1 0 0, Vec3 0 2 0, Vec3 0 0 3), mass = 1\<rparr>"
    by (simp add: lib_simps Let_def)
  have l0: "link_inertia (link tilted ! 0)
            = \<lparr>transform = Transform_zero,
                 inertia_i = (Vec3 1 0 0, Vec3 0 2 0, Vec3 0 0 3), mass = 1\<rparr>"
    by (simp add: tilted_def)
  show ?thesis
    by (simp add: transform_com_parts[OF ws] fr xi com ci tr l0)
qed

section \<open>The forward combination\<close>

text \<open>
  C2. \<open>forward\<close> returns \<open>_passive(sys, q, qd) - inverse(sys, qd, cinr, cd, cdof, cdofd) + tau\<close>,
  entry by entry: the net generalized force. Nothing is solved for: the force \<open>tau\<close> enters
  the result unscaled, so adding \<open>dtau\<close> to \<open>tau\<close> adds \<open>dtau\<close> to the result, whatever the
  masses are.
\<close>

theorem forward_net_force:
  "forward lib sys q qd cinr cd cdof cdofd tau
   = map2 (\<lambda>a b. a + b)
       (map2 (\<lambda>a b. a - b) (passive_forces lib sys q qd)
          (inverse_dyn lib sys qd cinr cd cdof cdofd))
       tau
   \<and> forward lib sys q qd cinr cd cdof cdofd (map2 (\<lambda>a b. a + b) tau dtau)
     = map2 (\<lambda>a b. a + b) (forward lib sys q qd cinr cd cdof cdofd tau) dtau"
proof -
  have assoc: "\<And>(xs :: real list) ys zs.
      map2 (\<lambda>a b. a + b) xs (map2 (\<lambda>a b. a + b) ys zs)
      = map2 (\<lambda>a b. a + b) (map2 (\<lambda>a b. a + b) xs ys) zs"
  proof -
    fix xs ys zs :: "real list"
    show "map2 (\<lambda>a b. a + b) xs (map2 (\<lambda>a b. a + b) ys zs)
      = map2 (\<lambda>a b. a + b) (map2 (\<lambda>a b. a + b) xs ys) zs"
    proof (induction xs arbitrary: ys zs)
      case Nil
      then show ?case by simp
    next
      case (Cons a xs)
      then show ?case by (cases ys; cases zs) simp_all
    qed
  qed
  show ?thesis by (simp add: forward_def Let_def assoc)
qed

section \<open>The forward scans that accumulate with \<open>index_sum\<close>\<close>

lemma link_types_chain12: "link_types chain12 = ''12''"
  by (simp add: chain12_def)

lemma qd_width_std: "qd_width std_lib = std_qd_width"
  by (simp add: std_lib_def)

lemma q_width_std: "q_width std_lib = std_q_width"
  by (simp add: std_lib_def)

lemma link_parents_chain12: "link_parents chain12 = [- 1, 0]"
  by (simp add: chain12_def)

lemma index_sum_append:
  "length idx1 = length vs1 \<Longrightarrow>
   index_sum base (idx1 @ idx2) (vs1 @ vs2) = index_sum (index_sum base idx1 vs1) idx2 vs2"
proof (induction idx1 arbitrary: base vs1)
  case Nil
  then show ?case by simp
next
  case (Cons i idx1)
  then obtain v vs where "vs1 = v # vs" by (cases vs1) auto
  with Cons show ?case by simp
qed

lemma index_sum_replicate:
  fixes base :: "'a::monoid_add list"
  shows "r < length base \<Longrightarrow>
         index_sum base (replicate (length vs) r) vs = base[r := base ! r + sum_list vs]"
proof (induction vs arbitrary: base)
  case Nil
  then show ?case by simp
next
  case (Cons v vs)
  then show ?case by (simp add: add.assoc)
qed

lemma index_sum_chunks:
  fixes base :: "'a::monoid_add list"
  assumes "a + length cs \<le> length base" "r < length base"
  shows "index_sum base (concat (map2 (\<lambda>r c. replicate (length c) r) [a..<a + length cs] cs))
           (concat cs) ! r
         = (if a \<le> r \<and> r < a + length cs then base ! r + sum_list (cs ! (r - a)) else base ! r)"
  using assms
proof (induction cs arbitrary: a base)
  case Nil
  then show ?case by auto
next
  case (Cons c cs)
  let ?b = "base[a := base ! a + sum_list c]"
  have a: "a < length base" using Cons.prems(1) by simp
  have "a < a + length (c # cs)" by simp
  from upt_conv_Cons[OF this]
  have up: "[a..<a + length (c # cs)] = a # [Suc a..<Suc a + length cs]"
    by simp
  have step: "index_sum base
           (concat (map2 (\<lambda>r c. replicate (length c) r) [a..<a + length (c # cs)] (c # cs)))
           (concat (c # cs))
        = index_sum ?b
           (concat (map2 (\<lambda>r c. replicate (length c) r) [Suc a..<Suc a + length cs] cs))
           (concat cs)"
    unfolding up using index_sum_replicate[OF a, of c]
    by (simp add: index_sum_append)
  have ih: "index_sum ?b
           (concat (map2 (\<lambda>r c. replicate (length c) r) [Suc a..<Suc a + length cs] cs))
           (concat cs) ! r
        = (if Suc a \<le> r \<and> r < Suc a + length cs then ?b ! r + sum_list (cs ! (r - Suc a))
           else ?b ! r)"
    using Cons.prems by (intro Cons.IH) simp_all
  have nb: "?b ! r = (if r = a then base ! a + sum_list c else base ! r)"
    using a by (simp add: nth_list_update)
  have rhs: "(if Suc a \<le> r \<and> r < Suc a + length cs then ?b ! r + sum_list (cs ! (r - Suc a))
              else ?b ! r)
             = (if a \<le> r \<and> r < a + length (c # cs)
                then base ! r + sum_list ((c # cs) ! (r - a)) else base ! r)"
  proof (cases "r = a")
    case True
    with nb show ?thesis by simp
  next
    case False
    show ?thesis
    proof (cases "a < r")
      case True
      then have "r - a = Suc (r - Suc a)" by simp
      with nb True False show ?thesis by simp
    next
      case False
      with \<open>r \<noteq> a\<close> have "r < a" by simp
      with nb show ?thesis by simp
    qed
  qed
  from arg_cong[where f="\<lambda>xs. xs ! r", OF step] ih rhs
  show ?case by (simp only:)
qed


lemma slice_concat_at:
  assumes "i < length xs"
  shows "slice (concat (map g xs)) (sum_list (map (\<lambda>x. length (g x)) (take i xs)))
           (length (g (xs ! i))) = g (xs ! i)"
proof -
  have "xs = take i xs @ xs ! i # drop (Suc i) xs"
    using assms by (simp add: id_take_nth_drop)
  then have "concat (map g xs)
             = concat (map g (take i xs)) @ g (xs ! i) @ concat (map g (drop (Suc i) xs))"
    by (metis concat.simps(2) concat_append list.simps(9) map_append)
  moreover have "length (concat (map g (take i xs)))
                 = sum_list (map (\<lambda>x. length (g x)) (take i xs))"
    by (simp add: length_concat comp_def)
  ultimately show ?thesis by (simp add: slice_def)
qed

lemma dof_link_depth_slice:
  assumes "i < num_links sys"
  shows "slice (dof_link_depth lib sys) (dof_start lib sys i) (qd_width lib (link_types sys ! i))
         = replicate (qd_width lib (link_types sys ! i)) (level_rank sys i)"
proof -
  let ?g = "\<lambda>j. replicate (qd_width lib (link_types sys ! j)) (level_rank sys j)"
  have "map (\<lambda>j. length (?g j)) (take i [0..<num_links sys])
        = map (qd_width lib) (take i (link_types sys))"
    using assms unfolding num_links_def by (intro nth_equalityI) simp_all
  then have st: "sum_list (map (\<lambda>j. length (?g j)) (take i [0..<num_links sys]))
                 = dof_start lib sys i"
    by (simp only: dof_start_def)
  have il: "i < length [0..<num_links sys]" using assms by simp
  from slice_concat_at[OF il, of ?g]
  have "slice (concat (map ?g [0..<num_links sys])) (dof_start lib sys i)
          (length (?g ([0..<num_links sys] ! i))) = ?g ([0..<num_links sys] ! i)"
    unfolding st .
  then show ?thesis using assms by (simp add: dof_link_depth_def)
qed

lemma map2_upt:
  "length cs = m \<Longrightarrow> map2 f [0..<m] cs = map (\<lambda>r. f r (cs ! r)) [0..<m]"
  by (intro nth_equalityI) simp_all

lemma take_level_d_depth:
  assumes "qd_size lib sys \<le> length v"
  shows "take_level_d lib sys k (dof_link_depth lib sys)
         = concat (map2 (\<lambda>r c. replicate (length c) r)
             [0..<0 + length (map (\<lambda>i. slice v (dof_start lib sys i)
                                     (qd_width lib (link_types sys ! i))) (level sys k))]
             (map (\<lambda>i. slice v (dof_start lib sys i) (qd_width lib (link_types sys ! i)))
                (level sys k)))"
proof -
  let ?lv = "level sys k"
  let ?cs = "map (\<lambda>i. slice v (dof_start lib sys i) (qd_width lib (link_types sys ! i))) ?lv"
  let ?F = "\<lambda>i. slice (dof_link_depth lib sys) (dof_start lib sys i)
                 (qd_width lib (link_types sys ! i))"
  have "map ?F ?lv = map (\<lambda>r. ?F (?lv ! r)) [0..<length ?lv]"
    by (rule nth_equalityI) simp_all
  also have "\<dots> = map (\<lambda>r. replicate (length (?cs ! r)) r) [0..<length ?lv]"
  proof (rule map_cong[OF refl])
    fix r assume "r \<in> set [0..<length ?lv]"
    then have r: "r < length ?lv" by simp
    let ?i = "?lv ! r"
    have i: "?i < num_links sys" and rk: "level_rank sys ?i = r"
      using level_rank_of_nth[OF r] by simp_all
    have "dof_start lib sys ?i + qd_width lib (link_types sys ! ?i) \<le> length v"
      using dof_start_bound[OF i, of lib] assms by simp
    then have "length (?cs ! r) = qd_width lib (link_types sys ! ?i)"
      using r by (simp add: length_slice)
    then show "?F (?lv ! r) = replicate (length (?cs ! r)) r"
      by (simp only: dof_link_depth_slice[OF i] rk)
  qed
  also have "\<dots> = map2 (\<lambda>r c. replicate (length c) r) [0..<length ?lv] ?cs"
    by (rule map2_upt[symmetric]) simp
  finally have "map ?F ?lv = map2 (\<lambda>r c. replicate (length c) r) [0..<length ?lv] ?cs" .
  then show ?thesis by (simp add: take_level_d_def)
qed

lemma level_index_sum_nth:
  fixes base :: "'a::monoid_add list"
  assumes "qd_size lib sys \<le> length v" "length base = length (level sys k)"
    and "r < length (level sys k)"
  shows "index_sum base (take_level_d lib sys k (dof_link_depth lib sys))
           (take_level_d lib sys k v) ! r
         = base ! r + sum_list (slice v (dof_start lib sys (level sys k ! r))
                                  (qd_width lib (link_types sys ! (level sys k ! r))))"
proof -
  let ?cs = "map (\<lambda>i. slice v (dof_start lib sys i) (qd_width lib (link_types sys ! i)))
               (level sys k)"
  have v: "take_level_d lib sys k v = concat ?cs" by (simp add: take_level_d_def)
  have "index_sum base (concat (map2 (\<lambda>r c. replicate (length c) r) [0..<0 + length ?cs] ?cs))
          (concat ?cs) ! r
        = (if 0 \<le> r \<and> r < 0 + length ?cs then base ! r + sum_list (?cs ! (r - 0))
           else base ! r)"
    by (rule index_sum_chunks) (use assms in simp_all)
  then show ?thesis
    using assms(3) by (simp only: take_level_d_depth[OF assms(1)] v) simp
qed


lemma level_rank_root: "level_rank sys 0 = 0"
  by (simp add: level_rank_def)

lemma scan_index_sum_nth:
  fixes seed :: "'a::monoid_add"
  assumes tr: "tree_ordered sys" and lv: "qd_size lib sys \<le> length v"
    and i: "i < num_links sys"
  shows "scan_tree sys
           (\<lambda>p k. index_sum (case p of None \<Rightarrow> [seed] | Some y \<Rightarrow> y)
                     (take_level_d lib sys k (dof_link_depth lib sys))
                     (take_level_d lib sys k v)) ! i
         = (if link_parents sys ! i = - 1 then seed
            else scan_tree sys
                   (\<lambda>p k. index_sum (case p of None \<Rightarrow> [seed] | Some y \<Rightarrow> y)
                             (take_level_d lib sys k (dof_link_depth lib sys))
                             (take_level_d lib sys k v)) ! nat (link_parents sys ! i))
           + sum_list (slice v (dof_start lib sys i) (qd_width lib (link_types sys ! i)))"
proof -
  let ?f = "\<lambda>p k. index_sum (case p of None \<Rightarrow> [seed] | Some y \<Rightarrow> y)
                     (take_level_d lib sys k (dof_link_depth lib sys))
                     (take_level_d lib sys k v)"
  let ?chunk = "\<lambda>i. sum_list (slice v (dof_start lib sys i) (qd_width lib (link_types sys ! i)))"
  have some: "\<forall>y k. length (?f (Some y) k) = length y" and none: "length (?f None 0) = 1"
    by (simp_all add: index_sum_length)
  note nth = scan_tree_nth[OF tr some none]
  note stl = scan_tree_stage_length[OF tr some none]
  show ?thesis
  proof (cases "i = 0")
    case True
    have p: "link_parents sys ! 0 = - 1" using tr by (simp add: tree_ordered_def)
    have l0: "level sys 0 = [0]" by (rule level_zero[OF tr])
    have "index_sum [seed] (take_level_d lib sys 0 (dof_link_depth lib sys))
            (take_level_d lib sys 0 v) ! 0
          = [seed] ! 0 + ?chunk (level sys 0 ! 0)"
      by (rule level_index_sum_nth[OF lv]) (simp_all add: l0)
    then have "scan_tree_stage sys ?f 0 ! 0 = seed + ?chunk 0"
      by (simp add: l0)
    then show ?thesis
      using nth[OF i] True p by (simp add: depth_root[OF tr] level_rank_root)
  next
    case False
    then have pos: "0 < i" by simp
    let ?p = "nat (link_parents sys ! i)"
    let ?k = "depth sys ?p"
    have pn: "0 \<le> link_parents sys ! i" and pi: "?p < i"
      using tree_parent[OF tr pos i] by simp_all
    have plt: "?p < num_links sys" using pi i by simp
    have di: "depth sys i = Suc ?k" by (rule depth_child[OF tr pos i])
    let ?lv = "level sys (Suc ?k)"
    let ?r = "level_rank sys i"
    have r: "?r < length ?lv" and lr: "?lv ! ?r = i"
      using level_rank_nth[OF i] di by simp_all
    let ?y = "scan_tree_stage sys ?f ?k"
    let ?idx = "map (\<lambda>i. int (level_rank sys (nat (link_parents sys ! i)))) ?lv"
    have ylen: "length ?y = length (level sys ?k)" by (rule stl)
    have prk: "level_rank sys ?p < length (level sys ?k)"
      using level_rank_nth(2)[OF plt] by simp
    then have yne: "?y \<noteq> []" using ylen by auto
    have blen: "length (take_idx ?y ?idx) = length ?lv"
      using yne by (simp add: take_idx_length)
    have "index_sum (take_idx ?y ?idx) (take_level_d lib sys (Suc ?k) (dof_link_depth lib sys))
            (take_level_d lib sys (Suc ?k) v) ! ?r
          = take_idx ?y ?idx ! ?r + ?chunk (?lv ! ?r)"
      by (rule level_index_sum_nth[OF lv blen r])
    moreover have "take_idx ?y ?idx ! ?r = ?y ! level_rank sys ?p"
    proof -
      have "take_idx ?y ?idx ! ?r = ?y ! nat (?idx ! ?r)"
        using r prk ylen lr by (intro take_idx_nth) simp_all
      then show ?thesis using r lr by simp
    qed
    ultimately have "scan_tree_stage sys ?f (Suc ?k) ! ?r
                     = ?y ! level_rank sys ?p + ?chunk i"
      by (simp add: Let_def lr)
    moreover have "scan_tree sys ?f ! ?p = ?y ! level_rank sys ?p"
      by (rule nth[OF plt])
    moreover have "link_parents sys ! i \<noteq> - 1" using pn by simp
    ultimately show ?thesis using nth[OF i] di by simp
  qed
qed

lemma sum_list_slice:
  fixes v :: "'a::comm_monoid_add list"
  assumes "s + w \<le> length v"
  shows "sum_list (slice v s w) = (\<Sum>k<w. v ! (s + k))"
proof -
  have "sum_list (slice v s w) = (\<Sum>k<length (slice v s w). slice v s w ! k)"
    by (rule sum_list_nth_sum)
  also have "\<dots> = (\<Sum>k<w. slice v s w ! k)"
    by (simp only: length_slice[OF assms])
  also have "\<dots> = (\<Sum>k<w. v ! (s + k))"
    by (intro sum.cong refl) (simp add: nth_slice[OF assms])
  finally show ?thesis .
qed

lemma cd_of_nth:
  assumes "tree_ordered sys" "qd_size lib sys \<le> length cdof_qd" "i < num_links sys"
  shows "cd_of lib sys cdof_qd ! i
         = (if link_parents sys ! i = - 1 then 0
            else cd_of lib sys cdof_qd ! nat (link_parents sys ! i))
           + (\<Sum>k<qd_width lib (link_types sys ! i). cdof_qd ! (dof_start lib sys i + k))"
proof -
  have "dof_start lib sys i + qd_width lib (link_types sys ! i) \<le> length cdof_qd"
    using dof_start_bound[OF assms(3), of lib] assms(2) by simp
  from sum_list_slice[OF this] scan_index_sum_nth[OF assms, of "0::Motion"]
  show ?thesis by (simp add: cd_of_def cd_fn_def)
qed

lemma take_level_d_map2:
  assumes "qd_size lib sys \<le> length a" "qd_size lib sys \<le> length b"
  shows "map2 f (take_level_d lib sys k a) (take_level_d lib sys k b)
         = take_level_d lib sys k (map2 f a b)"
proof -
  have "\<And>lv. set lv \<subseteq> {..<num_links sys} \<Longrightarrow>
     map2 f (concat (map (\<lambda>i. slice a (dof_start lib sys i) (qd_width lib (link_types sys ! i))) lv))
            (concat (map (\<lambda>i. slice b (dof_start lib sys i) (qd_width lib (link_types sys ! i))) lv))
     = concat (map (\<lambda>i. slice (map2 f a b) (dof_start lib sys i)
                            (qd_width lib (link_types sys ! i))) lv)"
  proof -
    fix lv show "set lv \<subseteq> {..<num_links sys} \<Longrightarrow>
     map2 f (concat (map (\<lambda>i. slice a (dof_start lib sys i) (qd_width lib (link_types sys ! i))) lv))
            (concat (map (\<lambda>i. slice b (dof_start lib sys i) (qd_width lib (link_types sys ! i))) lv))
     = concat (map (\<lambda>i. slice (map2 f a b) (dof_start lib sys i)
                            (qd_width lib (link_types sys ! i))) lv)"
    proof (induction lv)
      case Nil
      then show ?case by simp
    next
      case (Cons i lv)
      then have i: "i < num_links sys" by simp
      have "dof_start lib sys i + qd_width lib (link_types sys ! i) \<le> length a"
        "dof_start lib sys i + qd_width lib (link_types sys ! i) \<le> length b"
        using dof_start_bound[OF i, of lib] assms by simp_all
      then have "length (slice a (dof_start lib sys i) (qd_width lib (link_types sys ! i)))
                 = length (slice b (dof_start lib sys i) (qd_width lib (link_types sys ! i)))"
        by (simp add: length_slice)
      moreover have "slice (map2 f a b) (dof_start lib sys i) (qd_width lib (link_types sys ! i))
            = map2 f (slice a (dof_start lib sys i) (qd_width lib (link_types sys ! i)))
                     (slice b (dof_start lib sys i) (qd_width lib (link_types sys ! i)))"
        by (simp add: slice_def take_map drop_map take_zip drop_zip)
      ultimately show ?case using Cons by simp
    qed
  qed
  moreover have "set (level sys k) \<subseteq> {..<num_links sys}" by (auto simp: level_mem)
  ultimately show ?thesis by (simp add: take_level_d_def)
qed

lemma cdd_of_nth:
  assumes "tree_ordered sys" "length cdofd = qd_size lib sys" "length qd = qd_size lib sys"
    and "i < num_links sys"
  shows "cdd_of lib sys cdofd qd ! i
         = (if link_parents sys ! i = - 1 then Motion 0 (- gravity sys)
            else cdd_of lib sys cdofd qd ! nat (link_parents sys ! i))
           + (\<Sum>k<qd_width lib (link_types sys ! i).
                motion_scale (cdofd ! (dof_start lib sys i + k)) (qd ! (dof_start lib sys i + k)))"
proof -
  let ?v = "map2 motion_scale cdofd qd"
  have lv: "qd_size lib sys \<le> length ?v" using assms(2,3) by simp
  have la: "qd_size lib sys \<le> length cdofd" "qd_size lib sys \<le> length qd"
    using assms(2,3) by simp_all
  have bound: "dof_start lib sys i + qd_width lib (link_types sys ! i) \<le> length ?v"
    using dof_start_bound[OF assms(4), of lib] lv by simp
  have "(\<Sum>k<qd_width lib (link_types sys ! i). ?v ! (dof_start lib sys i + k))
        = (\<Sum>k<qd_width lib (link_types sys ! i).
             motion_scale (cdofd ! (dof_start lib sys i + k)) (qd ! (dof_start lib sys i + k)))"
    using bound by (intro sum.cong refl) simp
  with sum_list_slice[OF bound]
    scan_index_sum_nth[OF assms(1) lv assms(4), of "Motion_create_vel (- gravity sys)"]
  show ?thesis
    by (simp add: cdd_of_def cdd_fn_def take_level_d_map2[OF la] Motion_create_vel_def)
qed


text \<open>
  C5. The forward scan of \<open>inverse\<close> gives every link the accumulated acceleration of its
  parent plus the sum, over the dofs of the link, of \<open>cdofd\<^sub>d * qd\<^sub>d\<close>. For the root, which
  has no parent, the seed stands in: the motion with angular component zero and linear
  component \<open>- gravity\<close>.
\<close>

theorem cdd_forward_scan:
  assumes "tree_ordered sys" and "length cdofd = qd_size lib sys"
    and "length qd = qd_size lib sys" and "i < num_links sys"
  shows "cdd_of lib sys cdofd qd ! i
         = (if link_parents sys ! i = - 1 then Motion 0 (- gravity sys)
            else cdd_of lib sys cdofd qd ! nat (link_parents sys ! i))
           + (\<Sum>k<qd_width lib (link_types sys ! i).
                motion_scale (cdofd ! (dof_start lib sys i + k)) (qd ! (dof_start lib sys i + k)))"
  using assms by (rule cdd_of_nth)

theorem cdd_forward_scan_witness:
  "tree_ordered chain12
   \<and> length [Motion (Vec3 1 0 0) (Vec3 0 0 0), Motion (Vec3 0 1 0) (Vec3 0 0 0),
              Motion (Vec3 0 0 0) (Vec3 0 0 1)]
       = qd_size std_lib chain12
   \<and> length [1, 2, 3 :: real] = qd_size std_lib chain12
   \<and> (0::nat) < num_links chain12 \<and> (1::nat) < num_links chain12
   \<and> cdd_of std_lib chain12
         [Motion (Vec3 1 0 0) (Vec3 0 0 0), Motion (Vec3 0 1 0) (Vec3 0 0 0),
          Motion (Vec3 0 0 0) (Vec3 0 0 1)] [1, 2, 3] ! 0
       = Motion (Vec3 1 0 0) (Vec3 0 0 10)
   \<and> cdd_of std_lib chain12
         [Motion (Vec3 1 0 0) (Vec3 0 0 0), Motion (Vec3 0 1 0) (Vec3 0 0 0),
          Motion (Vec3 0 0 0) (Vec3 0 0 1)] [1, 2, 3] ! 1
       = Motion (Vec3 1 2 0) (Vec3 0 0 13)"
proof -
  let ?cdofd = "[Motion (Vec3 1 0 0) (Vec3 0 0 0), Motion (Vec3 0 1 0) (Vec3 0 0 0),
                 Motion (Vec3 0 0 0) (Vec3 0 0 1)]"
  let ?cdd = "cdd_of std_lib chain12 ?cdofd [1, 2, 3]"
  have t: "tree_ordered chain12" "length ?cdofd = qd_size std_lib chain12"
    "length [1, 2, 3 :: real] = qd_size std_lib chain12"
    by (simp_all add: tree_ordered_def chain12_def num_links_def qd_size_def std_lib_def
        std_qd_width_def int_typ_def)
  have n: "(0::nat) < num_links chain12" "(1::nat) < num_links chain12"
    by (simp_all add: chain12_def num_links_def)
  have "?cdd ! 0 = Motion 0 (- gravity chain12) + motion_scale (Motion (Vec3 1 0 0) (Vec3 0 0 0)) 1"
    by (subst cdd_forward_scan[OF t n(1)])
      (simp add: link_parents_chain12 link_types_chain12 dof_start_def qd_width_std
        std_qd_width_def int_typ_def)
  also have "\<dots> = Motion (Vec3 1 0 0) (Vec3 0 0 10)"
    by (simp add: chain12_def motion_scale_def vscale_def zero_vec3_def plus_Motion_def
        plus_vec3_def uminus_vec3_def)
  finally have c0: "?cdd ! 0 = Motion (Vec3 1 0 0) (Vec3 0 0 10)" .
  have "?cdd ! 1 = ?cdd ! 0 + (motion_scale (Motion (Vec3 0 1 0) (Vec3 0 0 0)) 2
                               + motion_scale (Motion (Vec3 0 0 0) (Vec3 0 0 1)) 3)"
    by (subst cdd_forward_scan[OF t n(2)])
      (simp add: link_parents_chain12 link_types_chain12 dof_start_def qd_width_std
        std_qd_width_def int_typ_def lessThan_Suc numeral_2_eq_2)
  also have "\<dots> = Motion (Vec3 1 2 0) (Vec3 0 0 13)"
    unfolding c0
    by (simp add: motion_scale_def vscale_def plus_Motion_def plus_vec3_def)
  finally have c1: "?cdd ! 1 = Motion (Vec3 1 2 0) (Vec3 0 0 13)" .
  show ?thesis using t n c0 c1 by blast
qed

section \<open>The backward scan of the link forces\<close>

lemma foldr_max_ge: "x \<in> set xs \<Longrightarrow> x \<le> foldr max xs (0::nat)"
  by (induction xs) auto

lemma depth_le_max: "i < num_links sys \<Longrightarrow> depth sys i \<le> max_depth sys"
  unfolding max_depth_def by (rule foldr_max_ge) simp

lemma singleton_slices_map:
  "\<forall>i\<in>set lv. i < length xs \<Longrightarrow> concat (map (\<lambda>i. slice xs i 1) lv) = map (\<lambda>i. xs ! i) lv"
proof (induction lv)
  case Nil
  then show ?case by simp
next
  case (Cons i lv)
  then have "i < length xs" by simp
  then have "take 1 (drop i xs) = [xs ! i]"
    by (simp add: take_Suc_conv_app_nth Cons_nth_drop_Suc[symmetric])
  then have "slice xs i 1 = [xs ! i]" by (simp add: slice_def)
  with Cons show ?case by simp
qed

lemma take_level_l_eq:
  assumes "num_links sys \<le> length xs"
  shows "take_level_l sys k xs = map (\<lambda>i. xs ! i) (level sys k)"
  unfolding take_level_l_def
  by (rule singleton_slices_map) (use assms in \<open>auto simp: level_mem\<close>)

lemma rev_stage_length:
  assumes "num_links sys \<le> length flat"
  shows "length (scan_tree_rev_stage sys (\<lambda>child k. cfrc_fn child (take_level_l sys k flat)) m)
         = length (level sys (max_depth sys - m))"
  by (cases m) (simp_all add: cfrc_fn_def take_level_l_eq[OF assms] Let_def)

lemma scan_tree_rev_eq:
  assumes "num_links sys \<le> length flat"
  shows "scan_tree_rev sys (\<lambda>child k. cfrc_fn child (take_level_l sys k flat))
         = map (\<lambda>i. scan_tree_rev_stage sys (\<lambda>child k. cfrc_fn child (take_level_l sys k flat))
                      (max_depth sys - depth sys i) ! level_rank sys i)
             [0..<num_links sys]"
  unfolding scan_tree_rev_def
proof (rule singleton_slices, intro allI impI)
  fix i assume i: "i < num_links sys"
  have "max_depth sys - (max_depth sys - depth sys i) = depth sys i"
    using depth_le_max[OF i] by simp
  then show "level_rank sys i
        < length (scan_tree_rev_stage sys (\<lambda>child k. cfrc_fn child (take_level_l sys k flat))
                    (max_depth sys - depth sys i))"
    using level_rank_nth(2)[OF i] by (simp add: rev_stage_length[OF assms])
qed

lemma scan_tree_rev_length:
  assumes "num_links sys \<le> length flat"
  shows "length (scan_tree_rev sys (\<lambda>child k. cfrc_fn child (take_level_l sys k flat)))
         = num_links sys"
  by (simp add: scan_tree_rev_eq[OF assms])

lemma children_depth:
  assumes tr: "tree_ordered sys" and c: "c < num_links sys"
    and p: "link_parents sys ! c = int i"
  shows "depth sys c = Suc (depth sys i)" and "i < c"
proof -
  have "link_parents sys ! 0 = - 1" using tr by (simp add: tree_ordered_def)
  with p have "c \<noteq> 0" by (cases "c = 0") auto
  then have pos: "0 < c" by simp
  from depth_child[OF tr pos c] p show "depth sys c = Suc (depth sys i)" by simp
  from tree_parent(2)[OF tr pos c] p show "i < c" by simp
qed

lemma children_in_next_level:
  assumes tr: "tree_ordered sys"
  shows "filter (\<lambda>c. link_parents sys ! c = int i) (level sys (Suc (depth sys i)))
         = filter (\<lambda>c. link_parents sys ! c = int i) [0..<num_links sys]"
  unfolding level_def filter_filter
  by (rule filter_cong[OF refl]) (use children_depth(1)[OF tr] in auto)

lemma take_idx_ranks:
  assumes "\<forall>c\<in>set cs. g c < length y"
  shows "take_idx y (map (\<lambda>c. int (g c)) cs) = map (\<lambda>c. y ! g c) cs"
proof (cases "y = []")
  case True
  with assms have "cs = []" by (cases cs) auto
  with True show ?thesis by (simp add: take_idx_def)
next
  case False
  then show ?thesis using assms by (simp add: take_idx_def)
qed

lemma scan_tree_rev_nth:
  assumes tr: "tree_ordered sys" and fl: "num_links sys \<le> length flat"
    and i: "i < num_links sys"
  shows "scan_tree_rev sys (\<lambda>child k. cfrc_fn child (take_level_l sys k flat)) ! i
         = flat ! i
           + sum_list (map (\<lambda>c. scan_tree_rev sys
                                   (\<lambda>child k. cfrc_fn child (take_level_l sys k flat)) ! c)
               (filter (\<lambda>c. link_parents sys ! c = int i) [0..<num_links sys]))"
proof -
  let ?F = "\<lambda>child k. cfrc_fn child (take_level_l sys k flat)"
  let ?D = "max_depth sys"
  let ?k = "depth sys i"
  let ?ch = "filter (\<lambda>c. link_parents sys ! c = int i) [0..<num_links sys]"
  have kD: "?k \<le> ?D" by (rule depth_le_max[OF i])
  have nth: "\<And>j. j < num_links sys \<Longrightarrow>
      scan_tree_rev sys ?F ! j = scan_tree_rev_stage sys ?F (?D - depth sys j) ! level_rank sys j"
    by (simp add: scan_tree_rev_eq[OF fl])
  have r: "level_rank sys i < length (level sys ?k)" and lr: "level sys ?k ! level_rank sys i = i"
    using level_rank_nth[OF i] by simp_all
  have chd: "\<forall>c\<in>set ?ch. c < num_links sys \<and> depth sys c = Suc ?k"
    using children_depth(1)[OF tr] by auto
  show ?thesis
  proof (cases "?k = ?D")
    case True
    have "?ch = []"
    proof (rule ccontr)
      assume "?ch \<noteq> []"
      then obtain c where "c \<in> set ?ch" by (cases ?ch) auto
      with chd have "c < num_links sys" "depth sys c = Suc ?k" by auto
      with depth_le_max[of c sys] True show False by simp
    qed
    moreover have "scan_tree_rev_stage sys ?F 0 ! level_rank sys i = flat ! i"
      using r lr True by (simp add: cfrc_fn_def take_level_l_eq[OF fl])
    ultimately show ?thesis using nth[OF i] True by simp
  next
    case False
    with kD obtain m where m: "?D - ?k = Suc m" by (cases "?D - ?k") auto
    then have km: "?D - Suc m = ?k" and sk: "?D - m = Suc ?k" using kD by simp_all
    let ?y = "scan_tree_rev_stage sys ?F m"
    have ylen: "length ?y = length (level sys (Suc ?k))"
      by (simp add: rev_stage_length[OF fl] sk)
    have rk: "\<forall>c\<in>set ?ch. level_rank sys c < length ?y"
    proof
      fix c assume "c \<in> set ?ch"
      with chd have c: "c < num_links sys" "depth sys c = Suc ?k" by auto
      from level_rank_nth(2)[OF c(1)] c(2) ylen show "level_rank sys c < length ?y" by simp
    qed
    have ych: "map (\<lambda>c. ?y ! level_rank sys c) ?ch = map (\<lambda>c. scan_tree_rev sys ?F ! c) ?ch"
    proof (rule map_cong[OF refl])
      fix c assume "c \<in> set ?ch"
      with chd have c: "c < num_links sys" "depth sys c = Suc ?k" by auto
      have "?D - depth sys c = m" using c(2) sk by simp
      then show "?y ! level_rank sys c = scan_tree_rev sys ?F ! c"
        by (simp add: nth[OF c(1)])
    qed
    have "scan_tree_rev_stage sys ?F (Suc m) ! level_rank sys i
          = flat ! i + sum_list (take_idx ?y (map (\<lambda>c. int (level_rank sys c))
                (filter (\<lambda>c. link_parents sys ! c = int i) (level sys (Suc ?k)))))"
      using r lr by (simp add: Let_def km cfrc_fn_def take_level_l_eq[OF fl])
    also have "\<dots> = flat ! i + sum_list (take_idx ?y (map (\<lambda>c. int (level_rank sys c)) ?ch))"
      by (simp only: children_in_next_level[OF tr])
    also have "\<dots> = flat ! i + sum_list (map (\<lambda>c. ?y ! level_rank sys c) ?ch)"
      by (simp only: take_idx_ranks[OF rk])
    also have "\<dots> = flat ! i + sum_list (map (\<lambda>c. scan_tree_rev sys ?F ! c) ?ch)"
      by (simp only: ych)
    finally show ?thesis using nth[OF i] m by simp
  qed
qed


lemma cdd_fn_lengths:
  "\<forall>y k. length (cdd_fn sys (Some y) (a k) (b k) (c k)) = length y"
  "length (cdd_fn sys None (a 0) (b 0) (c 0)) = 1"
  by (simp_all add: cdd_fn_def index_sum_length)

lemma cdd_of_length:
  assumes "tree_ordered sys"
  shows "length (cdd_of lib sys cdofd qd) = num_links sys"
  unfolding cdd_of_def
  by (rule scan_tree_length[OF assms cdd_fn_lengths])

lemma cfrc_flat_length:
  assumes "tree_ordered sys" "length cinr = num_links sys" "length cd = num_links sys"
  shows "length (map (\<lambda>(i, a, v). frc lib i a v) (zip cinr (zip (cdd_of lib sys cdofd qd) cd)))
         = num_links sys"
  using assms by (simp add: cdd_of_length)

lemma cfrc_of_length:
  assumes "tree_ordered sys" "length cinr = num_links sys" "length cd = num_links sys"
  shows "length (cfrc_of lib sys cinr cd cdofd qd) = num_links sys"
  unfolding cfrc_of_def Let_def
  by (rule scan_tree_rev_length) (simp add: assms cdd_of_length[OF assms(1)])

lemma cfrc_of_nth:
  assumes "tree_ordered sys" "length cinr = num_links sys" "length cd = num_links sys"
    and "i < num_links sys"
  shows "cfrc_of lib sys cinr cd cdofd qd ! i
         = frc lib (cinr ! i) (cdd_of lib sys cdofd qd ! i) (cd ! i)
           + sum_list (map (\<lambda>c. cfrc_of lib sys cinr cd cdofd qd ! c)
               (filter (\<lambda>c. link_parents sys ! c = int i) [0..<num_links sys]))"
proof -
  let ?flat = "map (\<lambda>(i, a, v). frc lib i a v) (zip cinr (zip (cdd_of lib sys cdofd qd) cd))"
  have fl: "num_links sys \<le> length ?flat"
    using cfrc_flat_length[OF assms(1,2,3), of lib cdofd qd] by simp
  have "?flat ! i = frc lib (cinr ! i) (cdd_of lib sys cdofd qd ! i) (cd ! i)"
    using assms by (simp add: cdd_of_length)
  with scan_tree_rev_nth[OF assms(1) fl assms(4)]
  show ?thesis by (simp only: cfrc_of_def Let_def)
qed

lemma dof_link_lt:
  assumes "d < qd_size lib sys"
  shows "dof_link lib sys ! d < num_links sys"
proof -
  from dof_decompose[OF assms] obtain i k where
    ik: "i < num_links sys" "k < qd_width lib (link_types sys ! i)"
        "d = dof_start lib sys i + k" by blast
  then show ?thesis using dof_link_nth[OF ik(1,2)] by simp
qed

lemma inverse_dyn_length:
  assumes "tree_ordered sys" "length cinr = num_links sys" "length cd = num_links sys"
    and "length cdof = qd_size lib sys"
  shows "length (inverse_dyn lib sys qd cinr cd cdof cdofd) = qd_size lib sys"
proof -
  have "cfrc_of lib sys cinr cd cdofd qd \<noteq> []"
    using cfrc_of_length[OF assms(1,2,3), of lib cdofd qd] assms(1)
    by (auto simp: tree_ordered_def)
  then show ?thesis
    using assms(4) by (simp add: inverse_dyn_def Let_def take_idx_length dof_link_length)
qed

lemma inverse_dyn_nth:
  assumes "tree_ordered sys" "length cinr = num_links sys" "length cd = num_links sys"
    and "length cdof = qd_size lib sys" and "d < qd_size lib sys"
  shows "inverse_dyn lib sys qd cinr cd cdof cdofd ! d
         = motion_dot (cdof ! d) (cfrc_of lib sys cinr cd cdofd qd ! (dof_link lib sys ! d))"
proof -
  let ?cfrc = "cfrc_of lib sys cinr cd cdofd qd"
  have len: "length ?cfrc = num_links sys" by (rule cfrc_of_length[OF assms(1,2,3)])
  have ne: "?cfrc \<noteq> []" using len assms(1) by (auto simp: tree_ordered_def)
  have dl: "d < length (map int (dof_link lib sys))"
    using assms(5) by (simp add: dof_link_length)
  have "take_idx ?cfrc (map int (dof_link lib sys)) ! d
        = ?cfrc ! nat (map int (dof_link lib sys) ! d)"
    using dof_link_lt[OF assms(5)] assms(5) len
    by (intro take_idx_nth[OF dl]) (simp_all add: dof_link_length)
  then have "take_idx ?cfrc (map int (dof_link lib sys)) ! d = ?cfrc ! (dof_link lib sys ! d)"
    using assms(5) by (simp add: dof_link_length)
  then show ?thesis
    using assms(4,5) ne by (simp add: inverse_dyn_def Let_def take_idx_length dof_link_length)
qed

text \<open>
  C9. The bias force of dof \<open>d\<close> is the dot product of \<open>cdof\<^sub>d\<close> with the accumulated force of
  the link \<open>i = dof_link ! d\<close> that the dof drives. That force is what the backward scan
  leaves at link \<open>i\<close>: the link's own force \<open>cinr * cdd + cd \<times> (cinr * cd)\<close> plus the
  accumulated forces of its children.
\<close>

theorem bias_force_per_dof:
  assumes "tree_ordered sys" and "length cinr = num_links sys" and "length cd = num_links sys"
    and "length cdof = qd_size lib sys" and "d < qd_size lib sys"
  shows "inverse_dyn lib sys qd cinr cd cdof cdofd ! d
         = motion_dot (cdof ! d) (cfrc_of lib sys cinr cd cdofd qd ! (dof_link lib sys ! d))
         \<and> cfrc_of lib sys cinr cd cdofd qd ! (dof_link lib sys ! d)
           = frc lib (cinr ! (dof_link lib sys ! d))
               (cdd_of lib sys cdofd qd ! (dof_link lib sys ! d)) (cd ! (dof_link lib sys ! d))
             + sum_list (map (\<lambda>c. cfrc_of lib sys cinr cd cdofd qd ! c)
                 (filter (\<lambda>c. link_parents sys ! c = int (dof_link lib sys ! d))
                    [0..<num_links sys]))"
  using inverse_dyn_nth[OF assms] cfrc_of_nth[OF assms(1,2,3) dof_link_lt[OF assms(5)]]
  by (rule conjI)

lemma dof_link_chain12: "dof_link std_lib chain12 = [0, 1, 1]"
  by (simp add: dof_link_def num_links_def link_types_chain12 qd_width_std std_qd_width_def
      int_typ_def numeral_2_eq_2)

theorem bias_force_per_dof_witness:
  "tree_ordered chain12
   \<and> length [unit_inertia (Vec3 0 0 0) 1, unit_inertia (Vec3 0 0 0) 3] = num_links chain12
   \<and> length [Motion (Vec3 0 0 0) (Vec3 0 0 0), Motion (Vec3 0 0 0) (Vec3 0 0 0)]
       = num_links chain12
   \<and> length [Motion (Vec3 0 0 0) (Vec3 0 0 1), Motion (Vec3 0 0 0) (Vec3 0 0 1),
              Motion (Vec3 1 0 0) (Vec3 0 0 0)] = qd_size std_lib chain12
   \<and> (0::nat) < qd_size std_lib chain12 \<and> (1::nat) < qd_size std_lib chain12
   \<and> inverse_dyn std_lib chain12 [0, 0, 0]
         [unit_inertia (Vec3 0 0 0) 1, unit_inertia (Vec3 0 0 0) 3]
         [Motion (Vec3 0 0 0) (Vec3 0 0 0), Motion (Vec3 0 0 0) (Vec3 0 0 0)]
         [Motion (Vec3 0 0 0) (Vec3 0 0 1), Motion (Vec3 0 0 0) (Vec3 0 0 1),
          Motion (Vec3 1 0 0) (Vec3 0 0 0)]
         [Motion (Vec3 0 0 0) (Vec3 0 0 0), Motion (Vec3 0 0 0) (Vec3 0 0 0),
          Motion (Vec3 0 0 0) (Vec3 0 0 0)] ! 1 = 30
   \<and> inverse_dyn std_lib chain12 [0, 0, 0]
         [unit_inertia (Vec3 0 0 0) 1, unit_inertia (Vec3 0 0 0) 3]
         [Motion (Vec3 0 0 0) (Vec3 0 0 0), Motion (Vec3 0 0 0) (Vec3 0 0 0)]
         [Motion (Vec3 0 0 0) (Vec3 0 0 1), Motion (Vec3 0 0 0) (Vec3 0 0 1),
          Motion (Vec3 1 0 0) (Vec3 0 0 0)]
         [Motion (Vec3 0 0 0) (Vec3 0 0 0), Motion (Vec3 0 0 0) (Vec3 0 0 0),
          Motion (Vec3 0 0 0) (Vec3 0 0 0)] ! 0 = 40"
proof -
  let ?cinr = "[unit_inertia (Vec3 0 0 0) 1, unit_inertia (Vec3 0 0 0) 3]"
  let ?cd = "[Motion (Vec3 0 0 0) (Vec3 0 0 0), Motion (Vec3 0 0 0) (Vec3 0 0 0)]"
  let ?cdof = "[Motion (Vec3 0 0 0) (Vec3 0 0 1), Motion (Vec3 0 0 0) (Vec3 0 0 1),
                Motion (Vec3 1 0 0) (Vec3 0 0 0)]"
  let ?cdofd = "[Motion (Vec3 0 0 0) (Vec3 0 0 0), Motion (Vec3 0 0 0) (Vec3 0 0 0),
                 Motion (Vec3 0 0 0) (Vec3 0 0 0)]"
  let ?qd = "[0, 0, 0 :: real]"
  let ?cdd = "cdd_of std_lib chain12 ?cdofd ?qd"
  let ?cfrc = "cfrc_of std_lib chain12 ?cinr ?cd ?cdofd ?qd"
  have tr: "tree_ordered chain12"
    by (simp add: tree_ordered_def chain12_def num_links_def)
  have l: "length ?cinr = num_links chain12" "length ?cd = num_links chain12"
    "length ?cdof = qd_size std_lib chain12"
    by (simp_all add: chain12_def num_links_def qd_size_def qd_width_std std_qd_width_def
        int_typ_def)
  have ld: "length ?cdofd = qd_size std_lib chain12" "length ?qd = qd_size std_lib chain12"
    by (simp_all add: chain12_def qd_size_def qd_width_std std_qd_width_def int_typ_def)
  have d: "(0::nat) < qd_size std_lib chain12" "(1::nat) < qd_size std_lib chain12"
    by (simp_all add: chain12_def qd_size_def qd_width_std std_qd_width_def int_typ_def)
  have n: "(0::nat) < num_links chain12" "(1::nat) < num_links chain12"
    by (simp_all add: chain12_def num_links_def)
  have "?cdd ! 0 = Motion 0 (- gravity chain12) + motion_scale (Motion (Vec3 0 0 0) (Vec3 0 0 0)) 0"
    by (subst cdd_of_nth[OF tr ld n(1)])
      (simp add: link_parents_chain12 link_types_chain12 dof_start_def qd_width_std
        std_qd_width_def int_typ_def)
  also have "\<dots> = Motion (Vec3 0 0 0) (Vec3 0 0 10)"
    by (simp add: chain12_def motion_scale_def vscale_def zero_vec3_def plus_Motion_def
        plus_vec3_def uminus_vec3_def)
  finally have cdd0: "?cdd ! 0 = Motion (Vec3 0 0 0) (Vec3 0 0 10)" .
  have "?cdd ! 1 = ?cdd ! 0 + (motion_scale (Motion (Vec3 0 0 0) (Vec3 0 0 0)) 0
                               + motion_scale (Motion (Vec3 0 0 0) (Vec3 0 0 0)) 0)"
    by (subst cdd_of_nth[OF tr ld n(2)])
      (simp add: link_parents_chain12 link_types_chain12 dof_start_def qd_width_std
        std_qd_width_def int_typ_def lessThan_Suc numeral_2_eq_2)
  also have "\<dots> = Motion (Vec3 0 0 0) (Vec3 0 0 10)"
    unfolding cdd0 by (simp add: motion_scale_def vscale_def plus_Motion_def plus_vec3_def)
  finally have cdd1: "?cdd ! 1 = Motion (Vec3 0 0 0) (Vec3 0 0 10)" .
  have f: "\<And>m. frc std_lib (unit_inertia (Vec3 0 0 0) m) (Motion (Vec3 0 0 0) (Vec3 0 0 10))
              (Motion (Vec3 0 0 0) (Vec3 0 0 0))
           = Force (Vec3 0 0 0) (Vec3 0 0 (m * 10))"
    by (simp add: frc_def lib_simps minus_vec3_def)
  note b1 = bias_force_per_dof[OF tr l d(2), of ?qd ?cdofd, unfolded dof_link_chain12]
  note b0 = bias_force_per_dof[OF tr l d(1), of ?qd ?cdofd, unfolded dof_link_chain12]
  have c1: "?cfrc ! 1 = Force (Vec3 0 0 0) (Vec3 0 0 30)"
    using conjunct2[OF b1]
    by (simp add: cdd1[unfolded One_nat_def] f link_parents_chain12 num_links_def
        link_types_chain12 numeral_2_eq_2)
  have c0: "?cfrc ! 0 = Force (Vec3 0 0 0) (Vec3 0 0 40)"
    using conjunct2[OF b0]
    by (simp add: cdd0 f c1[unfolded One_nat_def] link_parents_chain12 num_links_def
        link_types_chain12 numeral_2_eq_2 plus_Force_def plus_vec3_def zero_Force_def
        zero_vec3_def)
  have t1: "inverse_dyn std_lib chain12 ?qd ?cinr ?cd ?cdof ?cdofd ! 1 = 30"
    using conjunct1[OF b1] by (simp add: c1[unfolded One_nat_def] motion_dot_def vdot_def)
  have t0: "inverse_dyn std_lib chain12 ?qd ?cinr ?cd ?cdof ?cdofd ! 0 = 40"
    using conjunct1[OF b0] by (simp add: c0 motion_dot_def vdot_def)
  show ?thesis using tr l d t1 t0 by blast
qed

section \<open>Zero velocity and zero gravity\<close>

lemma all_zero_sum:
  fixes xs :: "'a::monoid_add list"
  shows "\<forall>c\<in>set cs. g c = 0 \<Longrightarrow> sum_list (map g cs) = (0::'a)"
  by (induction cs) simp_all

lemma motion_scale_zero: "motion_scale m 0 = 0"
  by (simp add: motion_scale_def vscale_def zero_Motion_def zero_vec3_def)

lemma motion_dot_zero: "motion_dot m 0 = 0"
  by (simp add: motion_dot_def vdot_def zero_Force_def zero_vec3_def)

lemma cd_of_zero:
  assumes tr: "tree_ordered sys" and len: "qd_size lib sys \<le> length cdof_qd"
    and z: "\<forall>e<length cdof_qd. cdof_qd ! e = 0"
  shows "i < num_links sys \<Longrightarrow> cd_of lib sys cdof_qd ! i = 0"
proof (induction i rule: less_induct)
  case (less i)
  have bound: "dof_start lib sys i + qd_width lib (link_types sys ! i) \<le> length cdof_qd"
    using dof_start_bound[OF less.prems, of lib] len by simp
  have s: "(\<Sum>k<qd_width lib (link_types sys ! i). cdof_qd ! (dof_start lib sys i + k)) = 0"
    using z bound by (intro sum.neutral) simp
  have p: "link_parents sys ! i \<noteq> - 1 \<Longrightarrow> cd_of lib sys cdof_qd ! nat (link_parents sys ! i) = 0"
  proof -
    assume ne: "link_parents sys ! i \<noteq> - 1"
    have "link_parents sys ! 0 = - 1" using tr by (simp add: tree_ordered_def)
    with ne have "i \<noteq> 0" by (cases "i = 0") auto
    then have pos: "0 < i" by simp
    from tree_parent(2)[OF tr pos less.prems] have "nat (link_parents sys ! i) < i" .
    then show ?thesis using less.IH less.prems by simp
  qed
  show ?case
    using cd_of_nth[OF tr len less.prems] s p by simp
qed

lemma cdd_of_zero:
  assumes tr: "tree_ordered sys" and l1: "length cdofd = qd_size lib sys"
    and l2: "length qd = qd_size lib sys" and g: "gravity sys = 0"
    and z: "\<forall>e<length qd. qd ! e = 0"
  shows "i < num_links sys \<Longrightarrow> cdd_of lib sys cdofd qd ! i = 0"
proof (induction i rule: less_induct)
  case (less i)
  have bound: "dof_start lib sys i + qd_width lib (link_types sys ! i) \<le> length qd"
    using dof_start_bound[OF less.prems, of lib] l2 by simp
  have s: "(\<Sum>k<qd_width lib (link_types sys ! i).
              motion_scale (cdofd ! (dof_start lib sys i + k)) (qd ! (dof_start lib sys i + k)))
           = 0"
    using z bound by (intro sum.neutral) (simp add: motion_scale_zero)
  have p: "link_parents sys ! i \<noteq> - 1
           \<Longrightarrow> cdd_of lib sys cdofd qd ! nat (link_parents sys ! i) = 0"
  proof -
    assume ne: "link_parents sys ! i \<noteq> - 1"
    have "link_parents sys ! 0 = - 1" using tr by (simp add: tree_ordered_def)
    with ne have "i \<noteq> 0" by (cases "i = 0") auto
    then have pos: "0 < i" by simp
    from tree_parent(2)[OF tr pos less.prems] have "nat (link_parents sys ! i) < i" .
    then show ?thesis using less.IH less.prems by simp
  qed
  have seed: "Motion 0 (- gravity sys) = 0" by (simp add: g zero_Motion_def)
  show ?case
    using cdd_of_nth[OF tr l1 l2 less.prems] s p seed by simp
qed

lemma cfrc_of_zero:
  assumes tr: "tree_ordered sys" and l1: "length cinr = num_links sys"
    and l2: "length cd = num_links sys"
    and flat: "\<forall>i<num_links sys. frc lib (cinr ! i) (cdd_of lib sys cdofd qd ! i) (cd ! i) = 0"
  shows "i < num_links sys \<Longrightarrow> cfrc_of lib sys cinr cd cdofd qd ! i = 0"
proof (induction "num_links sys - i" arbitrary: i rule: less_induct)
  case less
  have "\<forall>c\<in>set (filter (\<lambda>c. link_parents sys ! c = int i) [0..<num_links sys]).
          cfrc_of lib sys cinr cd cdofd qd ! c = 0"
  proof
    fix c assume "c \<in> set (filter (\<lambda>c. link_parents sys ! c = int i) [0..<num_links sys])"
    then have c: "c < num_links sys" "link_parents sys ! c = int i" by simp_all
    from children_depth(2)[OF tr c] have "i < c" .
    then have "num_links sys - c < num_links sys - i" using c(1) by simp
    from less.hyps[OF this c(1)] show "cfrc_of lib sys cinr cd cdofd qd ! c = 0" .
  qed
  then have "sum_list (map (\<lambda>c. cfrc_of lib sys cinr cd cdofd qd ! c)
               (filter (\<lambda>c. link_parents sys ! c = int i) [0..<num_links sys])) = 0"
    by (simp add: all_zero_sum)
  then show ?case
    using cfrc_of_nth[OF tr l1 l2 less.prems] flat less.prems by simp
qed


lemma cinr_of_length:
  assumes "length x = num_links sys" "length (link sys) = num_links sys"
  shows "length (cinr_of lib sys x) = num_links sys"
  using assms by (simp add: cinr_of_def cinr_frame_def xi_of_length)

text \<open>
  C6. With zero gravity and \<open>qd = 0\<close>, and \<open>cinr\<close>, \<open>cd\<close>, \<open>cdof\<close>, \<open>cdofd\<close> taken from
  \<open>transform_com\<close> at that \<open>qd\<close>, every link velocity \<open>cd\<close> is zero and \<open>inverse\<close> returns the
  bias force zero for every dof. The two operations of the library that enter the link
  force are taken to be linear, as the specification has them: an inertia applied to the
  zero motion, and the cross product of the zero motion with a force, are zero.
\<close>

theorem inverse_zero_at_rest:
  assumes "well_shaped lib sys q qd x" and "qd = replicate (qd_size lib sys) 0"
    and "gravity sys = 0"
    and "\<forall>it. inertia_mul lib it 0 = 0" and "\<forall>f. motion_cross_force lib 0 f = 0"
  shows "\<exists>com cinr cd cdof cdofd.
           transform_com lib sys q qd x = Some (com, cinr, cd, cdof, cdofd)
           \<and> cd = replicate (num_links sys) 0
           \<and> inverse_dyn lib sys qd cinr cd cdof cdofd = replicate (qd_size lib sys) 0"
proof -
  from transform_com_returns[OF assms(1)] obtain cdof cdofd where
    ret: "transform_com lib sys q qd x
          = Some (com_of lib sys x, cinr_of lib sys x,
                  cd_of lib sys (map2 motion_scale cdof qd), cdof, cdofd)"
    and lcdof: "length cdof = qd_size lib sys" and lcdofd: "length cdofd = qd_size lib sys"
    by blast
  let ?cq = "map2 motion_scale cdof qd"
  let ?cd = "cd_of lib sys ?cq"
  let ?cinr = "cinr_of lib sys x"
  have tr: "tree_ordered sys" and lx: "length x = num_links sys"
    and ll: "length (link sys) = num_links sys" and lqd: "length qd = qd_size lib sys"
    using assms(1) by (simp_all add: well_shaped_def)
  have qz: "\<forall>e<length qd. qd ! e = 0" using assms(2) by simp
  have lcq: "qd_size lib sys \<le> length ?cq" using lcdof lqd by simp
  have cqz: "\<forall>e<length ?cq. ?cq ! e = 0"
    using qz by (simp add: motion_scale_zero)
  have lcd: "length ?cd = num_links sys" by (rule cd_of_length[OF tr])
  have cdz: "\<forall>i<num_links sys. ?cd ! i = 0"
    using cd_of_zero[OF tr lcq cqz] by blast
  have cd_eq: "?cd = replicate (num_links sys) 0"
    using lcd cdz by (intro nth_equalityI) simp_all
  have lci: "length ?cinr = num_links sys" by (rule cinr_of_length[OF lx ll])
  have cddz: "\<forall>i<num_links sys. cdd_of lib sys cdofd qd ! i = 0"
    using cdd_of_zero[OF tr lcdofd lqd assms(3) qz] by blast
  have flat: "\<forall>i<num_links sys. frc lib (?cinr ! i) (cdd_of lib sys cdofd qd ! i) (?cd ! i) = 0"
    using cddz cdz assms(4,5) by (simp add: frc_def)
  have cfz: "\<forall>i<num_links sys. cfrc_of lib sys ?cinr ?cd cdofd qd ! i = 0"
    using cfrc_of_zero[OF tr lci lcd flat] by blast
  have lt: "length (inverse_dyn lib sys qd ?cinr ?cd cdof cdofd) = qd_size lib sys"
    by (rule inverse_dyn_length[OF tr lci lcd lcdof])
  have "\<forall>d<qd_size lib sys. inverse_dyn lib sys qd ?cinr ?cd cdof cdofd ! d = 0"
  proof (intro allI impI)
    fix d assume d: "d < qd_size lib sys"
    from cfz dof_link_lt[OF d]
    have "cfrc_of lib sys ?cinr ?cd cdofd qd ! (dof_link lib sys ! d) = 0" by blast
    with inverse_dyn_nth[OF tr lci lcd lcdof d, of qd cdofd]
    show "inverse_dyn lib sys qd ?cinr ?cd cdof cdofd ! d = 0"
      by (simp add: motion_dot_zero)
  qed
  with lt have "inverse_dyn lib sys qd ?cinr ?cd cdof cdofd = replicate (qd_size lib sys) 0"
    by (intro nth_equalityI) simp_all
  with ret cd_eq show ?thesis by blast
qed

lemma std_lib_linear:
  "\<forall>it. inertia_mul std_lib it 0 = 0" "\<forall>f. motion_cross_force std_lib 0 f = 0"
proof -
  show "\<forall>it. inertia_mul std_lib it 0 = 0"
  proof
    fix it :: Inertia
    obtain r1 r2 r3 where "inertia_i it = (r1, r2, r3)" by (cases "inertia_i it") auto
    then show "inertia_mul std_lib it 0 = 0"
      by (simp add: std_lib_def std_inertia_mul_def mat_vec_def vdot_def vcross_def vscale_def
          zero_Motion_def zero_Force_def zero_vec3_def plus_vec3_def minus_vec3_def)
  qed
  show "\<forall>f. motion_cross_force std_lib 0 f = 0"
    by (simp add: std_lib_def std_motion_cross_force_def vcross_def zero_Motion_def
        zero_Force_def zero_vec3_def plus_vec3_def)
qed

theorem inverse_zero_at_rest_witness:
  "well_shaped std_lib adrift12 [0, 0, 0] [0, 0, 0] chain12_x
   \<and> [0, 0, 0] = replicate (qd_size std_lib adrift12) (0::real)
   \<and> gravity adrift12 = 0
   \<and> (\<exists>com cinr cd cdof cdofd.
         transform_com std_lib adrift12 [0, 0, 0] [0, 0, 0] chain12_x
         = Some (com, cinr, cd, cdof, cdofd)
         \<and> cd = [0, 0]
         \<and> inverse_dyn std_lib adrift12 [0, 0, 0] cinr cd cdof cdofd = [0, 0, 0])"
proof -
  have ws: "well_shaped std_lib adrift12 [0, 0, 0] [0, 0, 0] chain12_x"
    by (simp add: well_shaped_def tree_ordered_def type_supported_def lib_simps adrift12_def
        sys_simps scan_simps)
  have n: "num_links adrift12 = 2" "qd_size std_lib adrift12 = 3"
    by (simp_all add: adrift12_def chain12_def num_links_def qd_size_def qd_width_std
        std_qd_width_def int_typ_def)
  have z: "[0, 0, 0] = replicate (qd_size std_lib adrift12) (0::real)"
    by (simp add: n numeral_3_eq_3)
  have g: "gravity adrift12 = 0" by (simp add: adrift12_def)
  have r2: "replicate (num_links adrift12) (0::Motion) = [0, 0]"
    by (simp add: n numeral_2_eq_2)
  have r3: "replicate (qd_size std_lib adrift12) (0::real) = [0, 0, 0]"
    by (simp add: n numeral_3_eq_3)
  from inverse_zero_at_rest[OF ws z g std_lib_linear]
  show ?thesis unfolding r2 r3 using ws z g by blast
qed

section \<open>The rate of the motion subspace of stacked joints\<close>

lemma column_stack_nth:
  assumes "r < rows" "a < length cols"
  shows "column_stack cols rows ! (r * length cols + a) = cols ! a ! r"
proof -
  have "\<forall>l\<in>set [0..<rows]. length (map (\<lambda>c. c ! l) cols) = length cols" by simp
  from concat_map_nth_chunk[OF this, of r a] assms
  show ?thesis by (simp add: column_stack_def)
qed

lemma cds_loop_snoc:
  "cds_loop stack cds (idx @ [i])
   = cds_loop stack cds idx
     @ [map2 (\<lambda>a b. a + b) (last (cds_loop stack cds idx)) (take_axis1 stack i)]"
  by (induction idx arbitrary: cds) simp_all

lemma cds_loop_nth:
  assumes "length cd = length stack"
  shows "a \<le> m \<Longrightarrow>
         cds_loop stack [cd] [0..<m] ! a
         = map (\<lambda>r. cd ! r + (\<Sum>j<a. stack ! r ! j)) [0..<length stack]"
proof (induction m arbitrary: a)
  case 0
  have "map (\<lambda>r. cd ! r) [0..<length cd] = cd" by (rule map_nth)
  then show ?case using 0 assms by simp
next
  case (Suc m)
  let ?c = "cds_loop stack [cd] [0..<m]"
  have len: "length ?c = Suc m" by (simp add: cds_loop_length)
  have unf: "cds_loop stack [cd] [0..<Suc m]
             = ?c @ [map2 (\<lambda>a b. a + b) (last ?c) (take_axis1 stack m)]"
    by (simp add: cds_loop_snoc)
  show ?case
  proof (cases "a \<le> m")
    case True
    then have "cds_loop stack [cd] [0..<Suc m] ! a = ?c ! a"
      using len by (simp only: unf) (simp add: nth_append)
    then show ?thesis using Suc.IH[OF True] by simp
  next
    case False
    with Suc.prems have a: "a = Suc m" by simp
    have "?c \<noteq> []" using len by auto
    from last_conv_nth[OF this] have "last ?c = ?c ! m" by (simp add: len)
    also have "\<dots> = map (\<lambda>r. cd ! r + (\<Sum>j<m. stack ! r ! j)) [0..<length stack]"
      by (rule Suc.IH) simp
    finally have l: "last ?c = map (\<lambda>r. cd ! r + (\<Sum>j<m. stack ! r ! j)) [0..<length stack]" .
    have "cds_loop stack [cd] [0..<Suc m] ! a
          = map2 (\<lambda>a b. a + b) (last ?c) (take_axis1 stack m)"
      using len a by (simp only: unf) (simp add: nth_append)
    also have "\<dots> = map (\<lambda>r. cd ! r + (\<Sum>j<a. stack ! r ! j)) [0..<length stack]"
      unfolding l a
      by (intro nth_equalityI) (simp_all add: take_axis1_def add.assoc)
    finally show ?thesis .
  qed
qed


lemma cdofd_fn_stacked:
  assumes t: "t \<noteq> CHR ''f''" "int_typ t = Some nd" "0 < nd"
    and len: "length cd = c" "length cdof = c * nd" "length cq = c * nd"
    and r: "r < c" and a: "a < nd"
  shows "the (cdofd_fn t cd cdof cq) ! (r * nd + a)
         = motion_cross (cd ! r + (\<Sum>j<a. cq ! (r * nd + j))) (cdof ! (r * nd + a))"
proof -
  let ?stack = "reshape_rows cq c nd"
  let ?cds = "cds_loop ?stack [cd] [0..<nd - 1]"
  let ?cd_stack = "column_stack ?cds c"
  have lcds: "length ?cds = nd" using t(3) by (simp add: cds_loop_length)
  have lst: "length cd = length ?stack" by (simp add: reshape_rows_length len(1))
  have val: "cdofd_fn t cd cdof cq = Some (map2 motion_cross ?cd_stack cdof)"
    using t len lcds by (simp add: cdofd_fn_def Let_def column_stack_length)
  have m: "r * nd + a < c * nd"
  proof -
    have "Suc r * nd \<le> c * nd" using r by (intro mult_le_mono1) simp
    then show ?thesis using a by simp
  qed
  have al: "a < length ?cds" unfolding lcds by (rule a)
  have "?cd_stack ! (r * length ?cds + a) = ?cds ! a ! r"
    by (rule column_stack_nth[OF r al])
  then have cs: "?cd_stack ! (r * nd + a) = ?cds ! a ! r" by (simp only: lcds)
  have "a \<le> nd - 1" using a by simp
  from cds_loop_nth[OF lst this]
  have "?cds ! a ! r = cd ! r + (\<Sum>j<a. ?stack ! r ! j)"
    using r by (simp add: reshape_rows_length)
  also have "(\<Sum>j<a. ?stack ! r ! j) = (\<Sum>j<a. cq ! (r * nd + j))"
  proof (intro sum.cong refl)
    fix j assume "j \<in> {..<a}"
    then have j: "j < nd" using a by simp
    have "Suc r * nd \<le> c * nd" using r by (intro mult_le_mono1) simp
    then have b: "r * nd + nd \<le> length cq" using len(3) by simp
    show "?stack ! r ! j = cq ! (r * nd + j)"
      using reshape_rows_nth(1)[OF len(3) r] nth_slice[OF b j] by simp
  qed
  finally have "?cds ! a ! r = cd ! r + (\<Sum>j<a. cq ! (r * nd + j))" .
  with cs have "?cd_stack ! (r * nd + a) = cd ! r + (\<Sum>j<a. cq ! (r * nd + j))" by simp
  moreover have "r * nd + a < length ?cd_stack"
    unfolding column_stack_length lcds by (rule m)
  ultimately show ?thesis
    using m len(2) by (simp add: val)
qed

lemma cdofd_stacked_nth:
  assumes tr: "tree_ordered sys" and ts: "list_all (type_supported lib) (link_types sys)"
    and lcd: "length cd = num_links sys" and lcdof: "length cdof = qd_size lib sys"
    and lqd: "length qd = qd_size lib sys"
    and sc: "scan_link_types_opt lib sys
               (\<lambda>t. cdofd_fn t (take_l sys t (take_idx (cd @ [0]) (pidx_of sys)))
                      (take_d lib sys t cdof) (take_d lib sys t (map2 motion_scale cdof qd)))
             = Some cdofd"
    and l: "l < num_links sys" and nf: "link_types sys ! l \<noteq> CHR ''f''"
    and a: "a < qd_width lib (link_types sys ! l)"
  shows "cdofd ! (dof_start lib sys l + a)
         = motion_cross
             ((if link_parents sys ! l = - 1 then 0 else cd ! nat (link_parents sys ! l))
              + (\<Sum>j<a. motion_scale (cdof ! (dof_start lib sys l + j))
                                      (qd ! (dof_start lib sys l + j))))
             (cdof ! (dof_start lib sys l + a))"
proof -
  let ?cq = "map2 motion_scale cdof qd"
  let ?cdp = "take_idx (cd @ [0]) (pidx_of sys)"
  let ?f = "\<lambda>t. cdofd_fn t (take_l sys t ?cdp) (take_d lib sys t cdof) (take_d lib sys t ?cq)"
  let ?t = "link_types sys ! l"
  let ?nd = "qd_width lib ?t"
  let ?c = "length (links_of_type sys ?t)"
  let ?r = "type_rank sys l"
  let ?s = "dof_start lib sys l"
  have lp: "length (link_parents sys) = num_links sys"
    using tr by (simp add: tree_ordered_def)
  have sup: "\<forall>t\<in>set (link_types sys). type_supported lib t"
    using ts by (simp add: list_all_iff)
  have tl: "?t \<in> set (link_types sys)" using l by (simp add: num_links_def)
  with sup nf have it: "int_typ ?t = Some ?nd" and pos: "0 < ?nd"
    by (simp_all add: type_supported_def)
  have lcq: "qd_size lib sys \<le> length ?cq" using lcdof lqd by simp
  have lcdof': "qd_size lib sys \<le> length cdof" using lcdof by simp
  have lcdp: "num_links sys \<le> length ?cdp"
    by (simp add: take_idx_length pidx_of_length[OF lp])
  have groups: "\<forall>t\<in>set (link_types sys).
          \<exists>res. ?f t = Some res \<and> length res = length (links_of_type sys t) * qd_width lib t"
  proof
    fix t assume "t \<in> set (link_types sys)"
    with sup have st: "type_supported lib t" by blast
    from cdofd_fn_returns[OF st take_d_length[OF lcdof'] take_d_length[OF lcq]
        take_l_length[OF lcdp]]
    show "\<exists>res. ?f t = Some res \<and> length res = length (links_of_type sys t) * qd_width lib t"
      by (simp add: take_d_length[OF lcdof'])
  qed
  from scan_link_types_opt_returns[OF groups] sc
  have cdofd: "cdofd = scan_link_types lib sys (\<lambda>t. the (?f t))"
    and gs: "group_sized lib sys (\<lambda>t. the (?f t))" by simp_all
  have "cdofd ! (?s + a) = the (?f ?t) ! (?r * ?nd + a)"
    unfolding cdofd by (rule scan_link_types_nth[OF gs l a])
  also have "\<dots> = motion_cross
        (take_l sys ?t ?cdp ! ?r + (\<Sum>j<a. take_d lib sys ?t ?cq ! (?r * ?nd + j)))
        (take_d lib sys ?t cdof ! (?r * ?nd + a))"
    by (rule cdofd_fn_stacked[OF nf it pos take_l_length[OF lcdp] take_d_length[OF lcdof']
          take_d_length[OF lcq] links_of_type_rank(2)[OF l] a])
  also have "take_d lib sys ?t cdof ! (?r * ?nd + a) = cdof ! (?s + a)"
    by (rule take_d_nth[OF l a lcdof'])
  also have "(\<Sum>j<a. take_d lib sys ?t ?cq ! (?r * ?nd + j))
             = (\<Sum>j<a. motion_scale (cdof ! (?s + j)) (qd ! (?s + j)))"
  proof (intro sum.cong refl)
    fix j assume "j \<in> {..<a}"
    then have j: "j < ?nd" using a by simp
    have "?s + ?nd \<le> qd_size lib sys" by (rule dof_start_bound[OF l])
    then have "?s + j < length cdof" "?s + j < length qd" using j lcdof lqd by simp_all
    then have "?cq ! (?s + j) = motion_scale (cdof ! (?s + j)) (qd ! (?s + j))" by simp
    with take_d_nth[OF l j lcq]
    show "take_d lib sys ?t ?cq ! (?r * ?nd + j)
          = motion_scale (cdof ! (?s + j)) (qd ! (?s + j))" by simp
  qed
  also have "take_l sys ?t ?cdp ! ?r
             = (if link_parents sys ! l = - 1 then 0 else cd ! nat (link_parents sys ! l))"
  proof -
    have "take_l sys ?t ?cdp ! ?r = ?cdp ! l" by (rule take_l_nth[OF l lcdp])
    moreover have pn: "pidx_of sys ! l = link_parents sys ! l"
      using pidx_of_nth[OF lp l] nf by simp
    moreover have "?cdp ! l = (if pidx_of sys ! l = - 1 then 0 else cd ! nat (pidx_of sys ! l))"
      using parents_range[OF tr l] l
      by (intro take_pad_nth) (simp_all add: pidx_of_length[OF lp] pn lcd)
    ultimately show ?thesis by simp
  qed
  finally show ?thesis .
qed

lemma chain12_cdof_group1: "cdof_fn std_lib (CHR ''1'') (take_q std_lib chain12 (CHR ''1'') [0, 0, 0])
             (take_d std_lib chain12 (CHR ''1'') (map motion (dof chain12)))
           = Some [Motion (Vec3 0 0 1) (Vec3 0 0 0)]"
  by (simp add: lib_simps sys_simps scan_simps cdof_fn_def Let_def)

lemma chain12_cdof_group2: "cdof_fn std_lib (CHR ''2'') (take_q std_lib chain12 (CHR ''2'') [0, 0, 0])
             (take_d std_lib chain12 (CHR ''2'') (map motion (dof chain12)))
           = Some [Motion (Vec3 1 0 0) (Vec3 0 0 0), Motion (Vec3 0 1 0) (Vec3 0 0 0)]"
  by (simp add: lib_simps sys_simps scan_simps cdof_fn_def Let_def numeral_2_eq_2)

lemma chain12_cdof_scan: "scan_link_types_opt std_lib chain12
             (\<lambda>typ. cdof_fn std_lib typ (take_q std_lib chain12 typ [0, 0, 0])
                      (take_d std_lib chain12 typ (map motion (dof chain12))))
           = Some [Motion (Vec3 0 0 1) (Vec3 0 0 0), Motion (Vec3 1 0 0) (Vec3 0 0 0),
                   Motion (Vec3 0 1 0) (Vec3 0 0 0)]"
  by (simp add: scan_link_types_opt_def scan_link_types_def link_types_chain12 num_links_def
      type_rank_def slice_def qd_width_std std_qd_width_def int_typ_def chain12_cdof_group1 chain12_cdof_group2 Let_def)

lemma chain12_joint_frame: "joint_frame std_lib chain12 chain12_x
           = [\<lparr>pos = Vec3 0 0 0, rot = Quat 1 0 0 0\<rparr>, \<lparr>pos = Vec3 2 0 0, rot = Quat 1 0 0 0\<rparr>]"
  by (simp add: joint_frame_def pidx_of_def take_idx_def lib_simps sys_simps Let_def
      enumerate_eq_zip)

lemma chain12_com: "com_of std_lib chain12 chain12_x = Vec3 (7 / 4) (3 / 4) 0"
  by (simp add: com_of_def xi_of_def lib_simps sys_simps Let_def)

lemma chain12_cdof: "cdof_of std_lib chain12 [0, 0, 0] chain12_x
    = Some [Motion (Vec3 0 0 1) (Vec3 (- (3 / 4)) (7 / 4) 0),
            Motion (Vec3 1 0 0) (Vec3 0 0 (3 / 4)),
            Motion (Vec3 0 1 0) (Vec3 0 0 (1 / 4))]"
  unfolding cdof_of_def chain12_cdof_scan chain12_joint_frame chain12_com dof_link_chain12
  by (simp add: take_idx_def lib_simps Let_def)

text \<open>
  C4, as the code has it. For a link on \<open>n\<close> stacked axes (any type but \<open>f\<close>) and its axis
  \<open>a\<close>, the \<open>cdofd\<close> of the axis is the spatial cross product of the axis's effective
  velocity with its own subspace vector \<open>cdof\<close>. The effective velocity starts from the
  spatial velocity \<open>cd\<close> of the parent link (zero for the root) and adds the velocity-weighted
  subspace vectors \<open>cdof\<^sub>j * qd\<^sub>j\<close> of the axes \<open>j < a\<close> of the same joint.
\<close>

theorem stacked_cdofd_rate:
  assumes "well_shaped lib sys q qd x" and "l < num_links sys"
    and "link_types sys ! l \<noteq> CHR ''f''" and "a < qd_width lib (link_types sys ! l)"
  shows "\<exists>com cinr cd cdof cdofd.
           transform_com lib sys q qd x = Some (com, cinr, cd, cdof, cdofd)
           \<and> cdofd ! (dof_start lib sys l + a)
             = motion_cross
                 ((if link_parents sys ! l = - 1 then 0 else cd ! nat (link_parents sys ! l))
                  + (\<Sum>j<a. motion_scale (cdof ! (dof_start lib sys l + j))
                                          (qd ! (dof_start lib sys l + j))))
                 (cdof ! (dof_start lib sys l + a))"
proof -
  from transform_com_returns[OF assms(1)] obtain cdof cdofd where
    ret: "transform_com lib sys q qd x
          = Some (com_of lib sys x, cinr_of lib sys x,
                  cd_of lib sys (map2 motion_scale cdof qd), cdof, cdofd)"
    and lcdof: "length cdof = qd_size lib sys"
    and sc: "scan_link_types_opt lib sys
              (\<lambda>t. cdofd_fn t
                 (take_l sys t (take_idx (cd_of lib sys (map2 motion_scale cdof qd) @ [0])
                                  (pidx_of sys)))
                 (take_d lib sys t cdof) (take_d lib sys t (map2 motion_scale cdof qd)))
            = Some cdofd"
    by blast
  have tr: "tree_ordered sys" and lqd: "length qd = qd_size lib sys"
    and ts: "list_all (type_supported lib) (link_types sys)"
    using assms(1) by (simp_all add: well_shaped_def)
  note lcd = cd_of_length[OF tr, of lib "map2 motion_scale cdof qd"]
  from cdofd_stacked_nth[OF tr ts lcd lcdof lqd sc assms(2,3,4)] ret
  show ?thesis by blast
qed

theorem stacked_cdofd_rate_witness:
  "well_shaped std_lib chain12 [0, 0, 0] [1, 2, 3] chain12_x \<and> (1::nat) < num_links chain12
   \<and> link_types chain12 ! 1 \<noteq> CHR ''f'' \<and> (1::nat) < qd_width std_lib (link_types chain12 ! 1)
   \<and> (\<exists>com cinr cd cdof cdofd.
         transform_com std_lib chain12 [0, 0, 0] [1, 2, 3] chain12_x
         = Some (com, cinr, cd, cdof, cdofd)
         \<and> cdofd ! 2 = motion_cross (cd ! 0 + motion_scale (cdof ! 1) 2) (cdof ! 2))"
proof -
  have h: "(1::nat) < num_links chain12" "link_types chain12 ! 1 \<noteq> CHR ''f''"
    "(1::nat) < qd_width std_lib (link_types chain12 ! 1)"
    by (simp_all add: num_links_def link_types_chain12 qd_width_std std_qd_width_def int_typ_def)
  have s: "dof_start std_lib chain12 1 = 1"
    by (simp add: dof_start_def link_types_chain12 qd_width_std std_qd_width_def int_typ_def)
  have p: "link_parents chain12 ! 1 = 0" by (simp add: link_parents_chain12)
  from stacked_cdofd_rate[OF well_shaped_chain12 h]
  have "\<exists>com cinr cd cdof cdofd.
         transform_com std_lib chain12 [0, 0, 0] [1, 2, 3] chain12_x
         = Some (com, cinr, cd, cdof, cdofd)
         \<and> cdofd ! 2 = motion_cross (cd ! 0 + motion_scale (cdof ! 1) 2) (cdof ! 2)"
    unfolding s p by (simp add: lessThan_Suc numeral_2_eq_2)
  with well_shaped_chain12 h show ?thesis by blast
qed

text \<open>
  C4 as stated fails. For the first axis of a joint no axis precedes it, so the running sum
  of the previous axes' velocity-weighted subspace vectors is zero, and the claimed
  \<open>cdofd\<close> is the cross product of zero with \<open>cdof\<close>, zero. In \<open>chain12\<close> at \<open>q = 0\<close> with the
  root axis turning (\<open>qd = (1, 0, 0)\<close>) the first axis of the second link (dof \<open>1\<close>) has
  \<open>cdofd\<close> different from zero: the velocity of the parent link enters the cross product.
  The same holds for the second axis (dof \<open>2\<close>), where the running sum over the one
  previous axis is \<open>cdof\<^sub>1 * qd\<^sub>1 = 0\<close>.
\<close>

theorem stacked_cdofd_counterexample:
  "snd (snd (snd (snd (the (transform_com std_lib chain12 [0, 0, 0] [1, 0, 0] chain12_x))))) ! 1
     = Motion (Vec3 0 1 0) (Vec3 0 0 (- (7 / 4)))
   \<and> motion_cross 0
         (fst (snd (snd (snd (the (transform_com std_lib chain12 [0, 0, 0] [1, 0, 0]
                                     chain12_x))))) ! 1)
     = Motion (Vec3 0 0 0) (Vec3 0 0 0)
   \<and> snd (snd (snd (snd (the (transform_com std_lib chain12 [0, 0, 0] [1, 0, 0] chain12_x))))) ! 1
     \<noteq> motion_cross 0
         (fst (snd (snd (snd (the (transform_com std_lib chain12 [0, 0, 0] [1, 0, 0]
                                     chain12_x))))) ! 1)
   \<and> snd (snd (snd (snd (the (transform_com std_lib chain12 [0, 0, 0] [1, 0, 0] chain12_x))))) ! 2
     = Motion (Vec3 (- 1) 0 0) (Vec3 0 0 (- (3 / 4)))
   \<and> snd (snd (snd (snd (the (transform_com std_lib chain12 [0, 0, 0] [1, 0, 0] chain12_x))))) ! 2
     \<noteq> motion_cross
         (motion_scale
            (fst (snd (snd (snd (the (transform_com std_lib chain12 [0, 0, 0] [1, 0, 0]
                                        chain12_x))))) ! 1)
            ([1, 0, 0] ! 1))
         (fst (snd (snd (snd (the (transform_com std_lib chain12 [0, 0, 0] [1, 0, 0]
                                     chain12_x))))) ! 2)"
proof -
  let ?cdofv = "[Motion (Vec3 0 0 1) (Vec3 (- (3 / 4)) (7 / 4) 0),
                 Motion (Vec3 1 0 0) (Vec3 0 0 (3 / 4)),
                 Motion (Vec3 0 1 0) (Vec3 0 0 (1 / 4))]"
  have ws: "well_shaped std_lib chain12 [0, 0, 0] [1, 0, 0] chain12_x"
    by (simp add: well_shaped_def tree_ordered_def type_supported_def lib_simps sys_simps
        scan_simps)
  from transform_com_returns[OF ws] obtain cdof cdofd where
    ret: "transform_com std_lib chain12 [0, 0, 0] [1, 0, 0] chain12_x
          = Some (com_of std_lib chain12 chain12_x, cinr_of std_lib chain12 chain12_x,
                  cd_of std_lib chain12 (map2 motion_scale cdof [1, 0, 0]), cdof, cdofd)"
    and cdof: "cdof_of std_lib chain12 [0, 0, 0] chain12_x = Some cdof"
    and lcdof: "length cdof = qd_size std_lib chain12"
    and sc: "scan_link_types_opt std_lib chain12
              (\<lambda>t. cdofd_fn t
                 (take_l chain12 t
                    (take_idx (cd_of std_lib chain12 (map2 motion_scale cdof [1, 0, 0]) @ [0])
                       (pidx_of chain12)))
                 (take_d std_lib chain12 t cdof)
                 (take_d std_lib chain12 t (map2 motion_scale cdof [1, 0, 0])))
            = Some cdofd"
    by blast
  have cv: "cdof = ?cdofv" using cdof by (simp add: chain12_cdof)
  let ?cq = "map2 motion_scale cdof [1, 0, 0]"
  let ?cd = "cd_of std_lib chain12 ?cq"
  have tr: "tree_ordered chain12" and lqd: "length [1, 0, 0 :: real] = qd_size std_lib chain12"
    and ts: "list_all (type_supported std_lib) (link_types chain12)"
    using ws by (simp_all add: well_shaped_def)
  have lcq: "qd_size std_lib chain12 \<le> length ?cq" using lcdof lqd by simp
  have n: "(0::nat) < num_links chain12" "(1::nat) < num_links chain12"
    by (simp_all add: num_links_def link_types_chain12)
  have h: "link_types chain12 ! 1 \<noteq> CHR ''f''" "(0::nat) < qd_width std_lib (link_types chain12 ! 1)"
    by (simp_all add: link_types_chain12 qd_width_std std_qd_width_def int_typ_def)
  have s: "dof_start std_lib chain12 1 = 1" "dof_start std_lib chain12 0 = 0"
    by (simp_all add: dof_start_def link_types_chain12 qd_width_std std_qd_width_def int_typ_def)
  have "?cd ! 0 = 0 + ?cq ! 0"
    by (subst cd_of_nth[OF tr lcq n(1)])
      (simp add: link_parents_chain12 link_types_chain12 s qd_width_std std_qd_width_def
        int_typ_def)
  also have "\<dots> = Motion (Vec3 0 0 1) (Vec3 (- (3 / 4)) (7 / 4) 0)"
    by (simp add: cv motion_scale_def vscale_def zero_Motion_def zero_vec3_def plus_Motion_def
        plus_vec3_def)
  finally have cd0: "?cd ! 0 = Motion (Vec3 0 0 1) (Vec3 (- (3 / 4)) (7 / 4) 0)" .
  note lcd = cd_of_length[OF tr, of std_lib ?cq]
  from cdofd_stacked_nth[OF tr ts lcd lcdof lqd sc n(2) h]
  have "cdofd ! 1 = motion_cross (?cd ! 0 + 0) (cdof ! 1)"
    unfolding s by (simp add: link_parents_chain12)
  also have "\<dots> = Motion (Vec3 0 1 0) (Vec3 0 0 (- (7 / 4)))"
    unfolding cd0
    by (simp add: cv motion_cross_def vcross_def zero_Motion_def zero_vec3_def plus_Motion_def
        plus_vec3_def)
  finally have v: "cdofd ! 1 = Motion (Vec3 0 1 0) (Vec3 0 0 (- (7 / 4)))" .
  have z: "motion_cross 0 (cdof ! 1) = Motion (Vec3 0 0 0) (Vec3 0 0 0)"
    by (simp add: cv motion_cross_def vcross_def zero_Motion_def zero_vec3_def plus_vec3_def)
  have h2: "(1::nat) < qd_width std_lib (link_types chain12 ! 1)"
    by (simp add: link_types_chain12 qd_width_std std_qd_width_def int_typ_def)
  from cdofd_stacked_nth[OF tr ts lcd lcdof lqd sc n(2) h(1) h2]
  have "cdofd ! 2 = motion_cross (?cd ! 0 + motion_scale (cdof ! 1) 0) (cdof ! 2)"
    unfolding s by (simp add: link_parents_chain12 lessThan_Suc numeral_2_eq_2)
  also have "\<dots> = Motion (Vec3 (- 1) 0 0) (Vec3 0 0 (- (3 / 4)))"
    unfolding cd0
    by (simp add: cv motion_cross_def motion_scale_def vscale_def vcross_def plus_Motion_def
        plus_vec3_def)
  finally have v2: "cdofd ! 2 = Motion (Vec3 (- 1) 0 0) (Vec3 0 0 (- (3 / 4)))" .
  have z2: "motion_cross (motion_scale (cdof ! 1) ([1, 0, 0] ! 1)) (cdof ! 2)
            = Motion (Vec3 0 0 0) (Vec3 0 0 0)"
    by (simp add: cv motion_cross_def motion_scale_def vscale_def vcross_def plus_vec3_def)
  show ?thesis
    by (simp add: ret v[unfolded One_nat_def] z[unfolded One_nat_def] v2 z2[simplified])
qed

end
